theory Spec2Isabelle
  imports Main "HOL-Library.AList"
begin

section \<open>Data model\<close>

text \<open>
  The sixteen token categories of \<^verbatim>\<open>LexicalAnalyzer.token_specification\<close>, in the order
  of the table.
\<close>

datatype kind =
    COMMENT | NUMBER | BIN_NUMBER | OCT_NUMBER | DEC_NUMBER | HEX_NUMBER
  | KEYWORD | IDENTIFIER | ASSIGN | REL_OP | ADD_OP | MUL_OP | UNARY_OP
  | DELIMITER | WHITESPACE | NEWLINE

text \<open>
  The payload of a token: \<^verbatim>\<open>int(value)\<close>, \<^verbatim>\<open>float(value)\<close> or the matched text.
  Only the classification of a float matters to the analyser (it is never computed with),
  so a float carries the literal it was read from; the rounding of \<^verbatim>\<open>float()\<close> is not
  modelled. A source text is a list of characters with code points 0..255. The tokenizer
  gives a number to a \<open>NUMBER\<close> token only, so the names that the parser and the checker store
  and compare are texts, and Python's equality of \<^verbatim>\<open>1\<close> and \<^verbatim>\<open>1.0\<close> plays no role.
\<close>

datatype pyval = IntV int | FloatV string | StrV string

type_synonym token = "kind \<times> pyval"

text \<open>
  What \<^verbatim>\<open>parse_expression\<close> returns: the payload of one operand, or the dictionary
  \<^verbatim>\<open>{"left": ..., "operator": ..., "right": ...}\<close>.
\<close>

datatype expr = Operand pyval | Comparison pyval pyval expr

text \<open>
  A symbol-table entry is the dictionary \<^verbatim>\<open>{"type": ..., "value": ..., "declared": True}\<close>.
  \<open>entry_value = None\<close> stands for a missing or \<^verbatim>\<open>None\<close> value, \<open>declared = False\<close> for
  an entry without the key \<^verbatim>\<open>"declared"\<close>. The table is a Python dictionary: an
  association list in insertion order, where storing under an existing key keeps the
  key's place (\<^const>\<open>AList.update\<close>).
\<close>

record entry =
  entry_type :: string
  entry_value :: "expr option"
  declared :: bool

type_synonym symtab = "(pyval \<times> entry) list"

section \<open>Lexical analysis\<close>

subsection \<open>Character classes of Python's \<^verbatim>\<open>re\<close> on code points below 256\<close>

definition code :: "char \<Rightarrow> nat" where
  "code c = of_char c"

definition is_digit :: "char \<Rightarrow> bool" where  \<comment> \<open>\<^verbatim>\<open>\d\<close>\<close>
  "is_digit c = (48 \<le> code c \<and> code c \<le> 57)"

definition is_space :: "char \<Rightarrow> bool" where  \<comment> \<open>\<^verbatim>\<open>\s\<close>\<close>
  "is_space c = ((9 \<le> code c \<and> code c \<le> 13) \<or> (28 \<le> code c \<and> code c \<le> 32)
     \<or> code c = 133 \<or> code c = 160)"

definition is_upper :: "char \<Rightarrow> bool" where  \<comment> \<open>\<^verbatim>\<open>[A-Z]\<close>\<close>
  "is_upper c = (65 \<le> code c \<and> code c \<le> 90)"

definition is_lower :: "char \<Rightarrow> bool" where  \<comment> \<open>\<^verbatim>\<open>[a-z]\<close>\<close>
  "is_lower c = (97 \<le> code c \<and> code c \<le> 122)"

definition is_word :: "char \<Rightarrow> bool" where  \<comment> \<open>\<^verbatim>\<open>\w\<close>, which decides \<^verbatim>\<open>\b\<close>\<close>
  "is_word c = (is_digit c \<or> is_upper c \<or> is_lower c \<or> c = CHR ''_''
     \<or> code c = 170 \<or> code c = 178 \<or> code c = 179 \<or> code c = 181
     \<or> code c = 185 \<or> code c = 186 \<or> (188 \<le> code c \<and> code c \<le> 190)
     \<or> (192 \<le> code c \<and> code c \<le> 214) \<or> (216 \<le> code c \<and> code c \<le> 246)
     \<or> 248 \<le> code c)"

definition is_ident_start :: "char \<Rightarrow> bool" where  \<comment> \<open>\<^verbatim>\<open>[A-Za-z_]\<close>\<close>
  "is_ident_start c = (is_upper c \<or> is_lower c \<or> c = CHR ''_'')"

definition is_ident_char :: "char \<Rightarrow> bool" where  \<comment> \<open>\<^verbatim>\<open>[A-Za-z_0-9]\<close>\<close>
  "is_ident_char c = (is_ident_start c \<or> is_digit c)"

definition is_hex :: "char \<Rightarrow> bool" where  \<comment> \<open>\<^verbatim>\<open>[0-9A-Fa-f]\<close>\<close>
  "is_hex c = (is_digit c \<or> (65 \<le> code c \<and> code c \<le> 70) \<or> (97 \<le> code c \<and> code c \<le> 102))"

subsection \<open>The sixteen rules\<close>

text \<open>
  Each rule is the length of the match of its regular expression at the start of the
  remaining text \<open>s\<close>, found as Python's backtracking matcher finds it; \<open>prev\<close> is the
  character before that position (\<open>None\<close> at the start of the text), which the word
  boundary \<^verbatim>\<open>\b\<close> of the keyword rule looks at.
\<close>

text \<open>\<^verbatim>\<open>.*?\*/\<close>: the shortest run of characters other than a newline that ends in \<^verbatim>\<open>*/\<close>.\<close>

fun comment_tail :: "string \<Rightarrow> nat option" where
  "comment_tail [] = None"
| "comment_tail (c # cs) =
     (if c = CHR ''*'' \<and> cs \<noteq> [] \<and> hd cs = CHR ''/'' then Some 2
      else if c = CHR 0x0A then None
      else map_option Suc (comment_tail cs))"

definition comment_rule :: "string \<Rightarrow> nat option" where  \<comment> \<open>\<^verbatim>\<open>/\*.*?\*/\<close>\<close>
  "comment_rule s =
     (case s of
        a # b # cs \<Rightarrow>
          if a = CHR ''/'' \<and> b = CHR ''*'' then map_option (\<lambda>n. n + 2) (comment_tail cs)
          else None
      | _ \<Rightarrow> None)"

definition run :: "(char \<Rightarrow> bool) \<Rightarrow> string \<Rightarrow> nat" where
  "run P s = length (takeWhile P s)"

definition fraction :: "string \<Rightarrow> nat" where  \<comment> \<open>\<^verbatim>\<open>(?:\.\d+)?\<close>\<close>
  "fraction s =
     (case s of
        c # cs \<Rightarrow> if c = CHR ''.'' \<and> 0 < run is_digit cs then 1 + run is_digit cs else 0
      | [] \<Rightarrow> 0)"

definition signed_digits :: "string \<Rightarrow> nat" where  \<comment> \<open>\<^verbatim>\<open>[+-]?\d+\<close>, 0 when it fails\<close>
  "signed_digits s =
     (case s of
        c # cs \<Rightarrow>
          if (c = CHR ''+'' \<or> c = CHR ''-'') \<and> 0 < run is_digit cs then 1 + run is_digit cs
          else run is_digit s
      | [] \<Rightarrow> 0)"

definition exponent :: "string \<Rightarrow> nat" where  \<comment> \<open>\<^verbatim>\<open>(?:[Ee][+-]?\d+)?\<close>\<close>
  "exponent s =
     (case s of
        c # cs \<Rightarrow>
          if (c = CHR ''E'' \<or> c = CHR ''e'') \<and> 0 < signed_digits cs then 1 + signed_digits cs
          else 0
      | [] \<Rightarrow> 0)"

definition number_rule :: "string \<Rightarrow> nat option" where
  \<comment> \<open>\<^verbatim>\<open>\d+(?:\.\d+)?(?:[Ee][+-]?\d+)?\<close>\<close>
  "number_rule s =
     (let n = run is_digit s; f = fraction (drop n s); e = exponent (drop (n + f) s)
      in if 0 < n then Some (n + f + e) else None)"

definition run_then :: "(char \<Rightarrow> bool) \<Rightarrow> (char \<Rightarrow> bool) \<Rightarrow> string \<Rightarrow> nat option" where
  \<comment> \<open>\<^verbatim>\<open>[P]+[Q]\<close> for disjoint classes: giving back characters of the run never helps\<close>
  "run_then P Q s =
     (let n = run P s
      in if 0 < n \<and> n < length s \<and> Q (s ! n) then Some (n + 1) else None)"

definition bin_rule :: "string \<Rightarrow> nat option" where  \<comment> \<open>\<^verbatim>\<open>[01]+[Bb]\<close>\<close>
  "bin_rule = run_then (\<lambda>c. c = CHR ''0'' \<or> c = CHR ''1'') (\<lambda>c. c = CHR ''B'' \<or> c = CHR ''b'')"

definition oct_rule :: "string \<Rightarrow> nat option" where  \<comment> \<open>\<^verbatim>\<open>[0-7]+[Oo]\<close>\<close>
  "oct_rule = run_then (\<lambda>c. 48 \<le> code c \<and> code c \<le> 55) (\<lambda>c. c = CHR ''O'' \<or> c = CHR ''o'')"

definition dec_rule :: "string \<Rightarrow> nat option" where  \<comment> \<open>\<^verbatim>\<open>\d+[Dd]?\<close>\<close>
  "dec_rule s =
     (let n = run is_digit s
      in if 0 < n
         then Some (if n < length s \<and> (s ! n = CHR ''D'' \<or> s ! n = CHR ''d'') then n + 1 else n)
         else None)"

definition hex_rule :: "string \<Rightarrow> nat option" where  \<comment> \<open>\<^verbatim>\<open>[0-9A-Fa-f]+[Hh]\<close>\<close>
  "hex_rule = run_then is_hex (\<lambda>c. c = CHR ''H'' \<or> c = CHR ''h'')"

definition keyword_list :: "string list" where
  "keyword_list = [''let'', ''if'', ''then'', ''else'', ''for'', ''do'', ''while'', ''loop'',
     ''input'', ''output'']"

definition starts_with :: "string \<Rightarrow> string \<Rightarrow> bool" where
  "starts_with w s = (take (length w) s = w)"

definition boundary_after :: "nat \<Rightarrow> string \<Rightarrow> bool" where
  \<comment> \<open>\<^verbatim>\<open>\b\<close> after a word character: the next character, if any, is not one\<close>
  "boundary_after n s = (n < length s \<longrightarrow> \<not> is_word (s ! n))"

definition keyword_rule :: "char option \<Rightarrow> string \<Rightarrow> nat option" where
  \<comment> \<open>\<^verbatim>\<open>\b(let|if|then|else|for|do|while|loop|input|output)\b\<close>\<close>
  "keyword_rule prev s =
     (if (case prev of None \<Rightarrow> False | Some p \<Rightarrow> is_word p) then None
      else map_option length
             (find (\<lambda>w. starts_with w s \<and> boundary_after (length w) s) keyword_list))"

definition identifier_rule :: "string \<Rightarrow> nat option" where  \<comment> \<open>\<^verbatim>\<open>[A-Za-z_][A-Za-z_0-9]*\<close>\<close>
  "identifier_rule s =
     (case s of
        c # cs \<Rightarrow> if is_ident_start c then Some (1 + run is_ident_char cs) else None
      | [] \<Rightarrow> None)"

definition literal_rule :: "string \<Rightarrow> string \<Rightarrow> nat option" where
  "literal_rule w s = (if starts_with w s then Some (length w) else None)"

definition one_of :: "string \<Rightarrow> string \<Rightarrow> nat option" where
  "one_of cls s = (case s of c # cs \<Rightarrow> if c \<in> set cls then Some 1 else None | [] \<Rightarrow> None)"

definition rel_op_rule :: "string \<Rightarrow> nat option" where  \<comment> \<open>\<^verbatim>\<open>[<>]=?\<close>\<close>
  "rel_op_rule s =
     (case one_of ''<>'' s of
        Some n \<Rightarrow> Some (if starts_with ''='' (drop 1 s) then 2 else 1)
      | None \<Rightarrow> None)"

definition or_else :: "nat option \<Rightarrow> nat option \<Rightarrow> nat option" where
  "or_else a b = (case a of Some n \<Rightarrow> Some n | None \<Rightarrow> b)"

definition add_op_rule :: "string \<Rightarrow> nat option" where  \<comment> \<open>\<^verbatim>\<open>[+\-]|or\<close>\<close>
  "add_op_rule s = or_else (one_of ''+-'' s) (literal_rule ''or'' s)"

definition mul_op_rule :: "string \<Rightarrow> nat option" where  \<comment> \<open>\<^verbatim>\<open>[*/]|and\<close>\<close>
  "mul_op_rule s = or_else (one_of ''*/'' s) (literal_rule ''and'' s)"

definition whitespace_rule :: "string \<Rightarrow> nat option" where  \<comment> \<open>\<^verbatim>\<open>[ \t]+\<close>\<close>
  "whitespace_rule s =
     (let n = run (\<lambda>c. c = CHR '' '' \<or> c = CHR 0x09) s in if 0 < n then Some n else None)"

definition token_specification :: "(kind \<times> (char option \<Rightarrow> string \<Rightarrow> nat option)) list" where
  "token_specification =
     [(COMMENT, \<lambda>prev. comment_rule),
      (NUMBER, \<lambda>prev. number_rule),
      (BIN_NUMBER, \<lambda>prev. bin_rule),
      (OCT_NUMBER, \<lambda>prev. oct_rule),
      (DEC_NUMBER, \<lambda>prev. dec_rule),
      (HEX_NUMBER, \<lambda>prev. hex_rule),
      (KEYWORD, keyword_rule),
      (IDENTIFIER, \<lambda>prev. identifier_rule),
      (ASSIGN, \<lambda>prev. literal_rule ''=''),
      (REL_OP, \<lambda>prev. rel_op_rule),
      (ADD_OP, \<lambda>prev. add_op_rule),
      (MUL_OP, \<lambda>prev. mul_op_rule),
      (UNARY_OP, \<lambda>prev. literal_rule ''not''),
      (DELIMITER, \<lambda>prev. one_of ''{}();,''),
      (WHITESPACE, \<lambda>prev. whitespace_rule),
      (NEWLINE, \<lambda>prev. one_of [CHR 0x0A])]"

subsection \<open>\<^verbatim>\<open>re.finditer\<close> over the alternation of the rules\<close>

text \<open>
  \<^verbatim>\<open>token_regex\<close> joins the rules with \<^verbatim>\<open>|\<close>: at a position the first rule of the table
  that matches there is the match, and its name is \<^verbatim>\<open>lastgroup\<close>.
\<close>

fun first_rule ::
  "(kind \<times> (char option \<Rightarrow> string \<Rightarrow> nat option)) list \<Rightarrow> char option \<Rightarrow> string
     \<Rightarrow> (kind \<times> nat) option" where
  "first_rule [] prev s = None"
| "first_rule ((k, r) # rules) prev s =
     (case r prev s of Some n \<Rightarrow> Some (k, n) | None \<Rightarrow> first_rule rules prev s)"

definition token_regex :: "char option \<Rightarrow> string \<Rightarrow> (kind \<times> nat) option" where
  "token_regex = first_rule token_specification"

text \<open>A match object: its \<^verbatim>\<open>lastgroup\<close>, \<^verbatim>\<open>start()\<close> and matched text.\<close>

record re_match =
  lastgroup :: kind
  start :: nat
  group :: string

text \<open>
  The scan: where no rule matches, the search moves on by one character; after a match it
  resumes at the end of the match. \<open>pos\<close> is the position of the head of \<open>s\<close> in the
  whole text. An empty match would also move on by one character; no rule has one.
\<close>

function finditer :: "nat \<Rightarrow> char option \<Rightarrow> string \<Rightarrow> re_match list" where
  "finditer pos prev [] = []"
| "finditer pos prev (c # cs) =
     (case token_regex prev (c # cs) of
        None \<Rightarrow> finditer (pos + 1) (Some c) cs
      | Some (k, n) \<Rightarrow>
          \<lparr>lastgroup = k, start = pos, group = take n (c # cs)\<rparr>
            # finditer (pos + max 1 n) (Some ((c # cs) ! (max 1 n - 1))) (drop (max 1 n) (c # cs)))"
  by pat_completeness auto
termination
  by (relation "measure (\<lambda>(pos, prev, s). length s)") auto

subsection \<open>\<^verbatim>\<open>LexicalAnalyzer.tokenize\<close>\<close>

text \<open>
  Python's integers are unbounded. The interpreter's limit on the length of a digit string
  given to \<^verbatim>\<open>int\<close> (4300 digits unless configured otherwise) is not modelled.
\<close>

definition int_of_digits :: "string \<Rightarrow> int" where  \<comment> \<open>\<^verbatim>\<open>int(value)\<close> on a run of digits\<close>
  "int_of_digits s = foldl (\<lambda>a c. 10 * a + (int (code c) - 48)) 0 s"

definition number_value :: "string \<Rightarrow> pyval" where
  "number_value v =
     (if CHR ''.'' \<in> set v \<or> CHR ''E'' \<in> set v \<or> CHR ''e'' \<in> set v then FloatV v
      else IntV (int_of_digits v))"

fun scan_tokens :: "re_match list \<Rightarrow> token list" where
  "scan_tokens [] = []"
| "scan_tokens (m # ms) =
     (if lastgroup m \<in> {WHITESPACE, NEWLINE, COMMENT} then scan_tokens ms
      else if lastgroup m = NUMBER then (NUMBER, number_value (group m)) # scan_tokens ms
      else (lastgroup m, StrV (group m)) # scan_tokens ms)"

text \<open>
  The second loop reports a message \<^verbatim>\<open>Unknown symbol: c\<close> for a character; the message is
  kept as a value.
\<close>

datatype lexical_error = UnknownSymbol char

definition matches_alone :: "char \<Rightarrow> bool" where
  \<comment> \<open>\<^verbatim>\<open>any(re.match(spec[1], c) for spec in token_specification)\<close>\<close>
  "matches_alone c = list_ex (\<lambda>spec. snd spec None [c] \<noteq> None) token_specification"

definition non_matching :: "string \<Rightarrow> lexical_error list" where
  "non_matching program =
     map UnknownSymbol (filter (\<lambda>c. \<not> is_space c \<and> \<not> matches_alone c) program)"

definition tokenize :: "string \<Rightarrow> token list \<times> lexical_error list" where
  "tokenize program = (scan_tokens (finditer 0 None program), non_matching program)"

section \<open>Syntax analysis\<close>

text \<open>
  The messages of the parser's \<^verbatim>\<open>SyntaxError\<close>s, kept as values:
  \<^verbatim>\<open>Expected {expected_type}, found {token_found}\<close>, where \<open>None\<close> is the text
  \<^verbatim>\<open>end of file\<close>; \<^verbatim>\<open>Unexpected end of file\<close>; \<^verbatim>\<open>Unknown statement: {current}\<close>;
  \<^verbatim>\<open>Expected IDENTIFIER or NUMBER, found {token}\<close>.
\<close>

datatype syntax_message =
    Expected kind "token option"
  | UnexpectedEnd
  | UnknownStatement token
  | ExpectedOperand token

text \<open>
  What a method of the parser can raise: a \<^verbatim>\<open>SyntaxError\<close>, or the \<^verbatim>\<open>IndexError\<close> of
  reading \<^verbatim>\<open>self.tokens\<close> out of range.
\<close>

datatype exn = SyntaxError syntax_message | IndexError

record SyntaxAnalyzer =
  tokens :: "token list"
  current_token :: nat
  symbol_table :: symtab

definition SyntaxAnalyzer_init :: "token list \<Rightarrow> SyntaxAnalyzer" where
  "SyntaxAnalyzer_init toks = \<lparr>tokens = toks, current_token = 0, symbol_table = []\<rparr>"

text \<open>
  A method call ends by returning a value or by raising, and in both cases leaves the
  object in some state. A method with a loop that may not end takes fuel and gives \<open>None\<close>
  when the fuel does not suffice.
\<close>

type_synonym 'a outcome = "(exn + 'a) \<times> SyntaxAnalyzer"

definition return :: "'a \<Rightarrow> SyntaxAnalyzer \<Rightarrow> 'a outcome" where
  "return x self = (Inr x, self)"

definition raise :: "exn \<Rightarrow> SyntaxAnalyzer \<Rightarrow> 'a outcome" where
  "raise e self = (Inl e, self)"

definition seq :: "'a outcome \<Rightarrow> ('a \<Rightarrow> SyntaxAnalyzer \<Rightarrow> 'b outcome) \<Rightarrow> 'b outcome" where
  "seq r f = (case r of (Inl e, self) \<Rightarrow> (Inl e, self) | (Inr x, self) \<Rightarrow> f x self)"

definition seq_fuel ::
  "'a outcome option \<Rightarrow> ('a \<Rightarrow> SyntaxAnalyzer \<Rightarrow> 'b outcome option) \<Rightarrow> 'b outcome option" where
  "seq_fuel r f =
     (case r of
        None \<Rightarrow> None
      | Some (Inl e, self) \<Rightarrow> Some (Inl e, self)
      | Some (Inr x, self) \<Rightarrow> f x self)"

lemma seq_cong [fundef_cong]:
  "r = r' \<Longrightarrow> (\<And>x self. r' = (Inr x, self) \<Longrightarrow> f x self = f' x self) \<Longrightarrow> seq r f = seq r' f'"
  by (auto simp: seq_def split: prod.splits sum.splits)

lemma seq_fuel_cong [fundef_cong]:
  "r = r' \<Longrightarrow> (\<And>x self. r' = Some (Inr x, self) \<Longrightarrow> f x self = f' x self)
     \<Longrightarrow> seq_fuel r f = seq_fuel r' f'"
  by (auto simp: seq_fuel_def split: option.splits prod.splits sum.splits)

definition match :: "kind \<Rightarrow> SyntaxAnalyzer \<Rightarrow> token outcome" where
  "match expected_type self =
     (if current_token self < length (tokens self)
         \<and> fst (tokens self ! current_token self) = expected_type
      then return (tokens self ! current_token self)
             (self\<lparr>current_token := current_token self + 1\<rparr>)
      else raise (SyntaxError (Expected expected_type
             (if current_token self < length (tokens self)
              then Some (tokens self ! current_token self) else None))) self)"

function parse_expression :: "SyntaxAnalyzer \<Rightarrow> expr outcome" where
  "parse_expression self =
     (if \<not> current_token self < length (tokens self) then raise IndexError self
      else
        let token = tokens self ! current_token self in
        if fst token \<in> {IDENTIFIER, NUMBER} then
          seq (match (fst token) self) (\<lambda>left self.
            if current_token self < length (tokens self)
               \<and> fst (tokens self ! current_token self) = REL_OP
            then
              seq (match REL_OP self) (\<lambda>operator self.
              seq (parse_expression self) (\<lambda>right self.
                return (Comparison (snd left) (snd operator) right) self))
            else return (Operand (snd left)) self)
        else raise (SyntaxError (ExpectedOperand token)) self)"
  by pat_completeness auto
termination
  by (relation "measure (\<lambda>self. length (tokens self) - current_token self)")
     (auto simp: match_def return_def raise_def split: if_splits)

declare parse_expression.simps [simp del]

definition parse_declaration :: "SyntaxAnalyzer \<Rightarrow> unit outcome" where
  "parse_declaration self =
     seq (match KEYWORD self) (\<lambda>_ self.
     seq (match IDENTIFIER self) (\<lambda>identifier self.
     seq (match ASSIGN self) (\<lambda>_ self.
     seq (parse_expression self) (\<lambda>value self.
     seq (match DELIMITER self) (\<lambda>_ self.
       let table = AList.update (snd identifier)
                     \<lparr>entry_type = ''variable'', entry_value = Some value, declared = False\<rparr>
                     (symbol_table self);
           table = AList.map_entry (snd identifier) (\<lambda>info. info\<lparr>declared := True\<rparr>) table
       in return () (self\<lparr>symbol_table := table\<rparr>))))))"

definition parse_assignment :: "SyntaxAnalyzer \<Rightarrow> unit outcome" where
  "parse_assignment self =
     seq (match IDENTIFIER self) (\<lambda>identifier self.
     seq (match ASSIGN self) (\<lambda>_ self.
     seq (parse_expression self) (\<lambda>value self.
     seq (match DELIMITER self) (\<lambda>_ self.
       if snd identifier \<in> fst ` set (symbol_table self)
       then return () (self\<lparr>symbol_table :=
              AList.map_entry (snd identifier) (\<lambda>info. info\<lparr>entry_value := Some value\<rparr>)
                (symbol_table self)\<rparr>)
       else return () (self\<lparr>symbol_table :=
              AList.update (snd identifier)
                \<lparr>entry_type = ''variable'', entry_value = Some value, declared = False\<rparr>
                (symbol_table self)\<rparr>)))))"

definition parse_input :: "SyntaxAnalyzer \<Rightarrow> unit outcome" where
  "parse_input self =
     seq (match KEYWORD self) (\<lambda>_ self.
     seq (match IDENTIFIER self) (\<lambda>_ self.
     seq (match DELIMITER self) (\<lambda>_ self. return () self)))"

definition parse_output :: "SyntaxAnalyzer \<Rightarrow> unit outcome" where
  "parse_output self =
     seq (match KEYWORD self) (\<lambda>_ self.
     seq (parse_expression self) (\<lambda>_ self.
     seq (match DELIMITER self) (\<lambda>_ self. return () self)))"

text \<open>
  The statement methods call each other and loop, and the loops need not end: they take
  fuel, which a call of \<open>parse_statement\<close> and a turn of a loop use up. In
  \<open>parse_statement\<close> the test \<^verbatim>\<open>self.tokens[self.current_token + 1][0] == "ASSIGN"\<close> is only
  reached for an identifier, and reads out of range when the identifier is the last token;
  a keyword other than the five tested ones falls through the inner chain, and the method
  returns without having consumed anything.
\<close>

fun parse_statement :: "nat \<Rightarrow> SyntaxAnalyzer \<Rightarrow> unit outcome option"
  and parse_conditional :: "nat \<Rightarrow> SyntaxAnalyzer \<Rightarrow> unit outcome option"
  and parse_fixed_loop :: "nat \<Rightarrow> SyntaxAnalyzer \<Rightarrow> unit outcome option"
  and parse_while_loop :: "nat \<Rightarrow> SyntaxAnalyzer \<Rightarrow> unit outcome option"
  and parse_compound_statement :: "nat \<Rightarrow> SyntaxAnalyzer \<Rightarrow> unit outcome option"
  and compound_loop :: "nat \<Rightarrow> SyntaxAnalyzer \<Rightarrow> unit outcome option"
where
  "parse_statement 0 self = None"
| "parse_statement (Suc n) self =
     (if current_token self \<ge> length (tokens self)
      then Some (raise (SyntaxError UnexpectedEnd) self)
      else
        let current = tokens self ! current_token self in
        if fst current = IDENTIFIER \<and> \<not> current_token self + 1 < length (tokens self)
        then Some (raise IndexError self)
        else if fst current = IDENTIFIER
                \<and> fst (tokens self ! (current_token self + 1)) = ASSIGN
        then Some (parse_assignment self)
        else if fst current = KEYWORD then
          (if snd current = StrV ''if'' then parse_conditional n self
           else if snd current = StrV ''for'' then parse_fixed_loop n self
           else if snd current = StrV ''do'' then parse_while_loop n self
           else if snd current = StrV ''input'' then Some (parse_input self)
           else if snd current = StrV ''output'' then Some (parse_output self)
           else Some (return () self))
        else if fst current = DELIMITER \<and> snd current = StrV ''{''
        then parse_compound_statement n self
        else Some (raise (SyntaxError (UnknownStatement current)) self))"
| "parse_conditional n self =
     seq_fuel (Some (match KEYWORD self)) (\<lambda>_ self.
     seq_fuel (Some (parse_expression self)) (\<lambda>condition self.
     seq_fuel (Some (match KEYWORD self)) (\<lambda>_ self.
     seq_fuel (parse_compound_statement n self) (\<lambda>_ self.
       if current_token self < length (tokens self)
          \<and> snd (tokens self ! current_token self) = StrV ''else''
       then seq_fuel (Some (match KEYWORD self)) (\<lambda>_ self. parse_compound_statement n self)
       else Some (return () self)))))"
| "parse_fixed_loop n self =
     seq_fuel (Some (match KEYWORD self)) (\<lambda>_ self.
     seq_fuel (Some (match IDENTIFIER self)) (\<lambda>_ self.
     seq_fuel (Some (match ASSIGN self)) (\<lambda>_ self.
     seq_fuel (Some (parse_expression self)) (\<lambda>_ self.
     seq_fuel (Some (match KEYWORD self)) (\<lambda>_ self.
     seq_fuel (Some (parse_expression self)) (\<lambda>_ self.
       parse_compound_statement n self))))))"
| "parse_while_loop n self =
     seq_fuel (Some (match KEYWORD self)) (\<lambda>_ self.
     seq_fuel (parse_compound_statement n self) (\<lambda>_ self.
     seq_fuel (Some (match KEYWORD self)) (\<lambda>_ self.
     seq_fuel (Some (parse_expression self)) (\<lambda>_ self. Some (return () self)))))"
| "parse_compound_statement n self =
     seq_fuel (Some (match DELIMITER self)) (\<lambda>_ self.
     seq_fuel (compound_loop n self) (\<lambda>_ self.
     seq_fuel (Some (match DELIMITER self)) (\<lambda>_ self. Some (return () self))))"
| "compound_loop 0 self = None"
| "compound_loop (Suc n) self =
     (if current_token self < length (tokens self)
         \<and> snd (tokens self ! current_token self) \<noteq> StrV ''}''
      then seq_fuel (parse_statement n self) (\<lambda>_ self. compound_loop n self)
      else Some (return () self))"

declare parse_statement.simps [simp del] parse_conditional.simps [simp del]
  parse_fixed_loop.simps [simp del] parse_while_loop.simps [simp del]
  parse_compound_statement.simps [simp del] compound_loop.simps [simp del]

text \<open>The loop of \<open>parse_program\<close>.\<close>

fun program_loop :: "nat \<Rightarrow> SyntaxAnalyzer \<Rightarrow> unit outcome option" where
  "program_loop 0 self = None"
| "program_loop (Suc n) self =
     (if current_token self < length (tokens self)
         \<and> snd (tokens self ! current_token self) \<noteq> StrV ''}''
      then
        seq_fuel
          (if fst (tokens self ! current_token self) = KEYWORD
              \<and> snd (tokens self ! current_token self) = StrV ''let''
           then Some (parse_declaration self)
           else parse_statement n self)
          (\<lambda>_ self. program_loop n self)
      else Some (return () self))"

declare program_loop.simps [simp del]

definition parse_program :: "nat \<Rightarrow> SyntaxAnalyzer \<Rightarrow> unit outcome option" where
  "parse_program n self =
     seq_fuel (Some (match DELIMITER self)) (\<lambda>_ self.
     seq_fuel (program_loop n self) (\<lambda>_ self.
     seq_fuel (Some (match DELIMITER self)) (\<lambda>_ self. Some (return () self))))"

text \<open>
  \<open>parse\<close> catches \<^verbatim>\<open>SyntaxError\<close> and nothing else: the dictionary it returns is
  \<open>Success\<close> with the symbol table or \<open>Failure\<close> with the message.
\<close>

datatype parse_result = Success symtab | Failure syntax_message

definition parse :: "nat \<Rightarrow> SyntaxAnalyzer \<Rightarrow> parse_result outcome option" where
  "parse n self =
     (case parse_program n self of
        None \<Rightarrow> None
      | Some (Inr _, self') \<Rightarrow> Some (return (Success (symbol_table self')) self')
      | Some (Inl (SyntaxError e), self') \<Rightarrow> Some (return (Failure e) self')
      | Some (Inl IndexError, self') \<Rightarrow> Some (raise IndexError self'))"

section \<open>Semantic analysis\<close>

text \<open>
  The entries of \<^verbatim>\<open>SemanticAnalyzer.errors\<close>, kept as values: \<^verbatim>\<open>Lexical error: ...\<close>,
  \<^verbatim>\<open>Syntax error: ...\<close>, \<^verbatim>\<open>Variable {name} is used before declaration.\<close> and
  \<^verbatim>\<open>Unknown type for variable {name}.\<close>
\<close>

datatype semantic_error =
    LexicalError lexical_error
  | SyntacticError syntax_message
  | UsedBeforeDeclaration pyval
  | UnknownType pyval

text \<open>
  The two Python sets are lists without repetition. Python does not fix the order in which
  a set is iterated; the model iterates in the order of first insertion, and nothing below
  depends on that order.
\<close>

record SemanticAnalyzer =
  sem_symbol_table :: symtab
  errors :: "semantic_error list"
  declared_variables :: "pyval list"
  undeclared_usage :: "pyval list"

definition SemanticAnalyzer_init :: SemanticAnalyzer where
  "SemanticAnalyzer_init =
     \<lparr>sem_symbol_table = [], errors = [], declared_variables = [], undeclared_usage = []\<rparr>"

definition set_add :: "'a \<Rightarrow> 'a list \<Rightarrow> 'a list" where
  "set_add x xs = (if x \<in> set xs then xs else xs @ [x])"

definition declare_lets :: "token list \<Rightarrow> pyval list \<Rightarrow> pyval list" where
  \<comment> \<open>the first loop of \<^verbatim>\<open>check_variables\<close>, over \<^verbatim>\<open>enumerate(tokens)\<close>\<close>
  "declare_lets toks decl =
     foldl (\<lambda>decl i.
         if fst (toks ! i) = KEYWORD \<and> snd (toks ! i) = StrV ''let''
         then (if i + 1 < length toks \<and> fst (toks ! (i + 1)) = IDENTIFIER
               then set_add (snd (toks ! (i + 1))) decl else decl)
         else decl)
       decl [0..<length toks]"

definition collect_undeclared :: "token list \<Rightarrow> pyval list \<Rightarrow> pyval list \<Rightarrow> pyval list" where
  \<comment> \<open>the second loop of \<^verbatim>\<open>check_variables\<close>\<close>
  "collect_undeclared toks decl undecl =
     foldl (\<lambda>undecl token.
         if fst token = IDENTIFIER
         then (if snd token \<notin> set decl then set_add (snd token) undecl else undecl)
         else undecl)
       undecl toks"

definition check_variables :: "token list \<Rightarrow> SemanticAnalyzer \<Rightarrow> SemanticAnalyzer" where
  "check_variables toks self =
     (let decl = declare_lets toks (declared_variables self);
          undecl = collect_undeclared toks decl (undeclared_usage self)
      in self\<lparr>declared_variables := decl, undeclared_usage := undecl,
              errors := errors self @ map UsedBeforeDeclaration undecl\<rparr>)"

definition isinstance_int :: "expr \<Rightarrow> bool" where
  "isinstance_int v = (case v of Operand (IntV i) \<Rightarrow> True | _ \<Rightarrow> False)"

definition isinstance_float :: "expr \<Rightarrow> bool" where
  "isinstance_float v = (case v of Operand (FloatV x) \<Rightarrow> True | _ \<Rightarrow> False)"

definition expected_type :: "expr \<Rightarrow> string" where
  "expected_type v =
     (if isinstance_int v then ''int'' else if isinstance_float v then ''float'' else ''unknown'')"

definition check_types :: "SemanticAnalyzer \<Rightarrow> SemanticAnalyzer" where
  "check_types self =
     self\<lparr>errors := foldl (\<lambda>errs (var_name, info).
         if entry_type info = ''variable'' \<and> entry_value info \<noteq> None
         then (if expected_type (the (entry_value info)) = ''unknown''
               then errs @ [UnknownType var_name] else errs)
         else errs)
       (errors self) (sem_symbol_table self)\<rparr>"

text \<open>The dictionary that \<^verbatim>\<open>SemanticAnalyzer.analyze\<close> returns.\<close>

record semantic_result =
  success :: bool
  result_errors :: "semantic_error list"
  result_symbol_table :: symtab

definition analyze ::
  "lexical_error list \<Rightarrow> parse_result \<Rightarrow> token list \<Rightarrow> SemanticAnalyzer \<Rightarrow> semantic_result" where
  "analyze lexical_errs pr toks self =
     (let self = self\<lparr>errors := errors self @ map LexicalError lexical_errs\<rparr> in
      case pr of
        Failure e \<Rightarrow>
          \<lparr>success = False, result_errors = errors self @ [SyntacticError e],
           result_symbol_table = sem_symbol_table self\<rparr>
      | Success table \<Rightarrow>
          let self = self\<lparr>sem_symbol_table := table\<rparr>;
              self = check_variables toks self;
              self = check_types self
          in \<lparr>success = (length (errors self) = 0), result_errors = errors self,
              result_symbol_table = sem_symbol_table self\<rparr>)"

section \<open>The pipeline\<close>

record analysis =
  an_tokens :: "token list"
  an_lexical_errors :: "lexical_error list"
  an_parse_result :: parse_result
  an_semantic_result :: semantic_result

text \<open>
  \<open>analyze_program\<close> catches nothing: what \<open>parse\<close> raises leaves it as an exception (\<open>Inl\<close>),
  and it returns (\<open>Inr\<close>) only if \<open>parse\<close> does. \<open>None\<close>: the fuel did not suffice.
\<close>

definition analyze_program :: "nat \<Rightarrow> string \<Rightarrow> (exn + analysis) option" where
  "analyze_program n program =
     (let (toks, lexical_errs) = tokenize program in
      case parse n (SyntaxAnalyzer_init toks) of
        None \<Rightarrow> None
      | Some (Inl e, parser) \<Rightarrow> Some (Inl e)
      | Some (Inr pr, parser) \<Rightarrow>
          Some (Inr \<lparr>an_tokens = toks, an_lexical_errors = lexical_errs,
                     an_parse_result = pr,
                     an_semantic_result = analyze lexical_errs pr toks SemanticAnalyzer_init\<rparr>))"

section \<open>Vocabulary of the properties\<close>

text \<open>
  The targets of a token stream: \<open>lhs_at ts i\<close> holds when token \<open>i\<close> is an identifier that
  stands immediately before an \<open>ASSIGN\<close> token and is not the loop variable of a
  \<^verbatim>\<open>for\<close> header (the token before it is not the keyword \<^verbatim>\<open>for\<close>). In the grammar an identifier
  stands before \<^verbatim>\<open>=\<close> in a declaration, in an assignment and in a \<^verbatim>\<open>for\<close> header only, so these
  are the left sides of declarations and assignments. \<open>targets ts a b\<close> are the names of the
  targets at the positions from \<open>a\<close> up to \<open>b\<close>, \<open>keys\<close> the keys of the symbol table.

  The other predicates relate the parser before and after a call that returned:
  \<open>exact\<close>, the keys grew by the targets of the tokens consumed; \<open>pending\<close>, the same provided
  the next token is no \<open>ASSIGN\<close> (a \<^verbatim>\<open>do ... while\<close> statement ends in an expression, whose
  last identifier is a target or not depending on that token); \<open>silent\<close>, no target was
  consumed and the table is as it was. \<open>prev_ok\<close>: the token before the cursor is no keyword,
  as holds where a statement starts. \<open>stmt_post\<close>, \<open>loop_post\<close> and \<open>block_post\<close> are what holds
  after a statement, a statement loop and a compound statement; \<open>stmt_spec n\<close> and
  \<open>loop_spec n\<close> say so for every call with fuel \<open>n\<close>.
\<close>

definition lhs_at :: "token list \<Rightarrow> nat \<Rightarrow> bool" where
  "lhs_at ts i = (fst (ts ! i) = IDENTIFIER \<and> i + 1 < length ts \<and> fst (ts ! (i + 1)) = ASSIGN
     \<and> \<not> (0 < i \<and> ts ! (i - 1) = (KEYWORD, StrV ''for'')))"

definition targets :: "token list \<Rightarrow> nat \<Rightarrow> nat \<Rightarrow> pyval set" where
  "targets ts a b = {snd (ts ! i) | i. a \<le> i \<and> i < b \<and> lhs_at ts i}"

definition keys :: "SyntaxAnalyzer \<Rightarrow> pyval set" where
  "keys self = fst ` set (symbol_table self)"

definition next_ok :: "token list \<Rightarrow> nat \<Rightarrow> bool" where
  "next_ok ts c = (c < length ts \<longrightarrow> fst (ts ! c) \<noteq> ASSIGN)"

definition prev_ok :: "token list \<Rightarrow> nat \<Rightarrow> bool" where
  "prev_ok ts c = (c = 0 \<or> fst (ts ! (c - 1)) \<noteq> KEYWORD)"

text \<open>What a successful \<open>parse_expression\<close> has consumed.\<close>

definition expr_span :: "SyntaxAnalyzer \<Rightarrow> SyntaxAnalyzer \<Rightarrow> bool" where
  "expr_span s s' =
     (tokens s' = tokens s \<and> symbol_table s' = symbol_table s
      \<and> current_token s < current_token s' \<and> current_token s' \<le> length (tokens s)
      \<and> fst (tokens s ! (current_token s' - 1)) \<in> {IDENTIFIER, NUMBER}
      \<and> (\<forall>i. current_token s \<le> i \<and> Suc i < current_token s' \<longrightarrow>
            \<not> (fst (tokens s ! i) = IDENTIFIER \<and> fst (tokens s ! Suc i) = ASSIGN)))"

definition exact :: "SyntaxAnalyzer \<Rightarrow> SyntaxAnalyzer \<Rightarrow> bool" where
  "exact s s' = (tokens s' = tokens s \<and> current_token s \<le> current_token s'
     \<and> keys s' = keys s \<union> targets (tokens s) (current_token s) (current_token s'))"

definition pending :: "SyntaxAnalyzer \<Rightarrow> SyntaxAnalyzer \<Rightarrow> bool" where
  "pending s s' = (tokens s' = tokens s \<and> current_token s \<le> current_token s'
     \<and> (next_ok (tokens s) (current_token s') \<longrightarrow>
          keys s' = keys s \<union> targets (tokens s) (current_token s) (current_token s')))"

text \<open>A stretch of tokens that holds no target and leaves the table alone.\<close>

definition silent :: "SyntaxAnalyzer \<Rightarrow> SyntaxAnalyzer \<Rightarrow> bool" where
  "silent s s' = (tokens s' = tokens s \<and> symbol_table s' = symbol_table s
     \<and> current_token s \<le> current_token s'
     \<and> targets (tokens s) (current_token s) (current_token s') = {})"

definition starts :: "SyntaxAnalyzer \<Rightarrow> bool" where
  "starts s = (current_token s < length (tokens s) \<and> fst (tokens s ! current_token s) \<noteq> ASSIGN)"

definition stmt_post :: "SyntaxAnalyzer \<Rightarrow> SyntaxAnalyzer \<Rightarrow> bool" where
  "stmt_post s s' = (starts s \<and> (prev_ok (tokens s) (current_token s) \<longrightarrow>
     pending s s' \<and> prev_ok (tokens s) (current_token s')))"

definition loop_post :: "SyntaxAnalyzer \<Rightarrow> SyntaxAnalyzer \<Rightarrow> bool" where
  "loop_post s s' = ((s' = s \<or> starts s) \<and> (prev_ok (tokens s) (current_token s) \<longrightarrow>
     pending s s' \<and> prev_ok (tokens s) (current_token s')))"

definition block_post :: "SyntaxAnalyzer \<Rightarrow> SyntaxAnalyzer \<Rightarrow> bool" where
  "block_post s s' = (exact s s' \<and> prev_ok (tokens s) (current_token s')
     \<and> next_ok (tokens s) (current_token s))"

definition stmt_spec :: "nat \<Rightarrow> bool" where
  "stmt_spec n = (\<forall>s s' u. parse_statement n s = Some (Inr u, s') \<longrightarrow> stmt_post s s')"

definition loop_spec :: "nat \<Rightarrow> bool" where
  "loop_spec n = (\<forall>s s' u. compound_loop n s = Some (Inr u, s') \<longrightarrow> loop_post s s')"

text \<open>
  \<open>fuel_le n m\<close>: what the statement methods return with fuel \<open>n\<close> they return with fuel \<open>m\<close>.
\<close>

definition fuel_le :: "nat \<Rightarrow> nat \<Rightarrow> bool" where
  "fuel_le n m = (\<forall>s r. (parse_statement n s = Some r \<longrightarrow> parse_statement m s = Some r)
     \<and> (compound_loop n s = Some r \<longrightarrow> compound_loop m s = Some r))"

text \<open>
  The errors of each pass on its own: what \<open>check_variables\<close> and \<open>check_types\<close> append to
  the errors of a fresh analyser. \<open>untyped\<close> is the test of \<open>check_types\<close> on one entry.
\<close>

definition pass_a :: "token list \<Rightarrow> semantic_error list" where
  "pass_a toks = errors (check_variables toks SemanticAnalyzer_init)"

definition pass_b :: "symtab \<Rightarrow> semantic_error list" where
  "pass_b table = errors (check_types (SemanticAnalyzer_init\<lparr>sem_symbol_table := table\<rparr>))"

definition untyped :: "pyval \<times> entry \<Rightarrow> bool" where
  "untyped p = (entry_type (snd p) = ''variable'' \<and>
     (\<exists>v. entry_value (snd p) = Some v \<and> \<not> isinstance_int v \<and> \<not> isinstance_float v))"

section \<open>Properties of the tokenizer\<close>

lemma run_pos_iff: "0 < run P s \<longleftrightarrow> s \<noteq> [] \<and> P (hd s)"
  by (cases s) (simp_all add: run_def)

lemma run_mono: "(\<And>c. P c \<Longrightarrow> Q c) \<Longrightarrow> 0 < run P s \<Longrightarrow> 0 < run Q s"
  by (simp add: run_pos_iff)

lemma number_rule_iff: "number_rule s \<noteq> None \<longleftrightarrow> 0 < run is_digit s"
  by (simp add: number_rule_def Let_def)

lemma number_rule_Some: "0 < run is_digit s \<Longrightarrow> \<exists>y. number_rule s = Some y"
  by (simp add: number_rule_def Let_def)

lemma run_then_digits:
  assumes "\<And>c. P c \<Longrightarrow> is_digit c" and "run_then P Q s = Some n"
  shows "number_rule s \<noteq> None"
proof -
  from assms(2) have "0 < run P s"
    by (simp add: run_then_def Let_def split: if_splits)
  with assms(1) have "0 < run is_digit s" by (rule run_mono)
  then show ?thesis using number_rule_iff by blast
qed

lemma bin_rule_shadowed: "bin_rule s = Some n \<Longrightarrow> number_rule s \<noteq> None"
  unfolding bin_rule_def by (erule run_then_digits [rotated]) (auto simp: is_digit_def code_def)

lemma oct_rule_shadowed: "oct_rule s = Some n \<Longrightarrow> number_rule s \<noteq> None"
  unfolding oct_rule_def by (erule run_then_digits [rotated]) (auto simp: is_digit_def)

lemma dec_rule_shadowed: "dec_rule s = Some n \<Longrightarrow> number_rule s \<noteq> None"
  by (auto simp: dec_rule_def Let_def split: if_splits dest: number_rule_Some)

lemma token_regex_kind:
  assumes "token_regex prev s = Some (k, n)"
  shows "k \<noteq> BIN_NUMBER \<and> k \<noteq> OCT_NUMBER \<and> k \<noteq> DEC_NUMBER"
proof (cases "number_rule s")
  case None
  then have "bin_rule s = None" "oct_rule s = None" "dec_rule s = None"
    using bin_rule_shadowed oct_rule_shadowed dec_rule_shadowed by fastforce+
  with assms None show ?thesis
    by (auto simp: token_regex_def token_specification_def split: option.splits)
next
  case (Some m)
  with assms show ?thesis
    by (auto simp: token_regex_def token_specification_def split: option.splits)
qed

lemma finditer_kinds:
  "m \<in> set (finditer pos prev s) \<Longrightarrow>
     lastgroup m \<noteq> BIN_NUMBER \<and> lastgroup m \<noteq> OCT_NUMBER \<and> lastgroup m \<noteq> DEC_NUMBER"
proof (induction pos prev s rule: finditer.induct)
  case (1 pos prev)
  then show ?case by simp
next
  case (2 pos prev c cs)
  show ?case
  proof (cases "token_regex prev (c # cs)")
    case None
    with 2 show ?thesis by simp
  next
    case (Some kn)
    obtain k n where kn: "kn = (k, n)" by (cases kn)
    from token_regex_kind Some kn
    have "k \<noteq> BIN_NUMBER \<and> k \<noteq> OCT_NUMBER \<and> k \<noteq> DEC_NUMBER" by blast
    with 2 Some kn show ?thesis by auto
  qed
qed

lemma scan_tokens_kinds: "t \<in> set (scan_tokens ms) \<Longrightarrow> \<exists>m \<in> set ms. lastgroup m = fst t"
  by (induction ms) (auto split: if_splits)

text \<open>
  Claim C10: for every source text, no token that \<open>tokenize\<close> emits has kind \<open>BIN_NUMBER\<close>,
  \<open>OCT_NUMBER\<close> or \<open>DEC_NUMBER\<close>; wherever one of these three rules matches, the \<open>NUMBER\<close>
  rule, which stands before them in the table, matches at the same position.
\<close>

theorem tokenize_never_suffixed_number:
  "(\<forall>t \<in> set (fst (tokenize program)). fst t \<notin> {BIN_NUMBER, OCT_NUMBER, DEC_NUMBER}) \<and>
   (bin_rule s \<noteq> None \<or> oct_rule s \<noteq> None \<or> dec_rule s \<noteq> None \<longrightarrow> number_rule s \<noteq> None)"
proof (intro conjI ballI impI)
  fix t assume "t \<in> set (fst (tokenize program))"
  then obtain m where "m \<in> set (finditer 0 None program)" "lastgroup m = fst t"
    using scan_tokens_kinds by (fastforce simp: tokenize_def)
  with finditer_kinds [of m 0 None program]
  show "fst t \<notin> {BIN_NUMBER, OCT_NUMBER, DEC_NUMBER}" by auto
next
  assume "bin_rule s \<noteq> None \<or> oct_rule s \<noteq> None \<or> dec_rule s \<noteq> None"
  then show "number_rule s \<noteq> None"
    using bin_rule_shadowed oct_rule_shadowed dec_rule_shadowed by blast
qed

theorem tokenize_never_suffixed_number_witness:
  "fst (tokenize ''101b 17o 9D'') =
     [(NUMBER, IntV 101), (IDENTIFIER, StrV ''b''), (NUMBER, IntV 17), (IDENTIFIER, StrV ''o''),
      (NUMBER, IntV 9), (IDENTIFIER, StrV ''D'')] \<and>
   list_all (\<lambda>t. fst t \<notin> {BIN_NUMBER, OCT_NUMBER, DEC_NUMBER}) (fst (tokenize ''101b 17o 9D'')) \<and>
   bin_rule ''101b'' \<noteq> None \<and> number_rule ''101b'' \<noteq> None"
proof -
  have a: "fst (tokenize ''101b 17o 9D'') =
     [(NUMBER, IntV 101), (IDENTIFIER, StrV ''b''), (NUMBER, IntV 17), (IDENTIFIER, StrV ''o''),
      (NUMBER, IntV 9), (IDENTIFIER, StrV ''D'')]" by code_simp
  have b: "bin_rule ''101b'' \<noteq> None" by code_simp
  from a b tokenize_never_suffixed_number [of "''101b 17o 9D''" "''101b''"]
  show ?thesis unfolding list_all_iff by blast
qed

section \<open>Properties of the semantic passes\<close>

lemma set_add_set: "set (set_add x xs) = insert x (set xs)"
  by (auto simp: set_add_def)

lemma set_add_distinct: "distinct xs \<Longrightarrow> distinct (set_add x xs)"
  by (simp add: set_add_def)

lemma declare_lets_fold:
  "set (foldl (\<lambda>decl i.
         if fst (toks ! i) = KEYWORD \<and> snd (toks ! i) = StrV ''let''
         then (if i + 1 < length toks \<and> fst (toks ! (i + 1)) = IDENTIFIER
               then set_add (snd (toks ! (i + 1))) decl else decl)
         else decl) decl js)
   = set decl \<union> {snd (toks ! (i + 1)) | i. i \<in> set js \<and> toks ! i = (KEYWORD, StrV ''let'')
        \<and> i + 1 < length toks \<and> fst (toks ! (i + 1)) = IDENTIFIER}"
proof (induction js arbitrary: decl)
  case Nil
  then show ?case by simp
next
  case (Cons j js)
  show ?case
    unfolding foldl_Cons Cons.IH
    by (auto simp: set_add_set prod_eq_iff)
qed

lemma declare_lets_set:
  "set (declare_lets toks decl) =
     set decl \<union> {v. \<exists>i. i + 1 < length toks \<and> toks ! i = (KEYWORD, StrV ''let'')
        \<and> toks ! (i + 1) = (IDENTIFIER, v)}"
  unfolding declare_lets_def declare_lets_fold
  by (auto simp: prod_eq_iff)

lemma collect_undeclared_set:
  "set (collect_undeclared toks decl undecl) =
     set undecl \<union> {v. (IDENTIFIER, v) \<in> set toks \<and> v \<notin> set decl}"
  unfolding collect_undeclared_def
proof (induction toks arbitrary: undecl)
  case Nil
  then show ?case by simp
next
  case (Cons t toks)
  show ?case
    unfolding foldl_Cons Cons.IH
    by (cases t) (auto simp: set_add_set)
qed

lemma collect_undeclared_distinct:
  "distinct undecl \<Longrightarrow> distinct (collect_undeclared toks decl undecl)"
  unfolding collect_undeclared_def
  by (induction toks arbitrary: undecl) (simp_all add: set_add_distinct)

lemma check_variables_errors:
  "errors (check_variables toks self) =
     errors self @ map UsedBeforeDeclaration
       (collect_undeclared toks (declare_lets toks (declared_variables self)) (undeclared_usage self))"
  by (simp add: check_variables_def Let_def)

lemma check_variables_table [simp]:
  "sem_symbol_table (check_variables toks self) = sem_symbol_table self"
  by (simp add: check_variables_def Let_def)

lemma expected_type_unknown:
  "expected_type v = ''unknown'' \<longleftrightarrow> \<not> isinstance_int v \<and> \<not> isinstance_float v"
  by (simp add: expected_type_def)

lemma check_types_fold:
  "foldl (\<lambda>errs (var_name, info).
         if entry_type info = ''variable'' \<and> entry_value info \<noteq> None
         then (if expected_type (the (entry_value info)) = ''unknown''
               then errs @ [UnknownType var_name] else errs)
         else errs) errs table
   = errs @ map (\<lambda>p. UnknownType (fst p)) (filter untyped table)"
proof (induction table arbitrary: errs)
  case Nil
  then show ?case by simp
next
  case (Cons p table)
  obtain var_name info where p: "p = (var_name, info)" by (cases p)
  have "untyped (var_name, info) \<longleftrightarrow> entry_type info = ''variable'' \<and> entry_value info \<noteq> None
      \<and> expected_type (the (entry_value info)) = ''unknown''"
    by (auto simp: untyped_def expected_type_unknown)
  then show ?case
    unfolding foldl_Cons Cons.IH p by auto
qed

lemma check_types_errors:
  "errors (check_types self) =
     errors self @ map (\<lambda>p. UnknownType (fst p)) (filter untyped (sem_symbol_table self))"
  unfolding check_types_def check_types_fold by simp

lemma check_types_table [simp]: "sem_symbol_table (check_types self) = sem_symbol_table self"
  by (simp add: check_types_def)

lemma count_list_map_other:
  "(\<And>x. f x \<noteq> y) \<Longrightarrow> count_list (map f xs) y = 0"
  by (induction xs) auto

lemma count_list_map_inj:
  "inj f \<Longrightarrow> count_list (map f xs) (f y) = count_list xs y"
  by (induction xs) (auto dest: injD)

lemma count_list_distinct: "distinct xs \<Longrightarrow> count_list xs y = (if y \<in> set xs then 1 else 0)"
  by (induction xs) auto

lemma analyze_Success_errors:
  "result_errors (analyze les (Success table) toks SemanticAnalyzer_init) =
     map LexicalError les
     @ map UsedBeforeDeclaration (collect_undeclared toks (declare_lets toks []) [])
     @ map (\<lambda>p. UnknownType (fst p)) (filter untyped table)"
  by (simp add: analyze_def Let_def check_types_errors check_variables_errors
      SemanticAnalyzer_init_def)

text \<open>
  Claim C5: after a successful parse, the errors of the semantic result hold the entry
  \<open>UsedBeforeDeclaration v\<close> exactly once if \<open>v\<close> is the value of an \<open>IDENTIFIER\<close> token and no
  \<open>let\<close> keyword token of the stream is immediately followed by the identifier \<open>v\<close>, and not
  at all otherwise: however often \<open>v\<close> occurs, and wherever the \<open>let\<close> stands.
\<close>

theorem used_before_declaration_once:
  "count_list (result_errors (analyze les (Success table) toks SemanticAnalyzer_init))
     (UsedBeforeDeclaration v) =
   (if (IDENTIFIER, v) \<in> set toks \<and>
       \<not> (\<exists>i. i + 1 < length toks \<and> toks ! i = (KEYWORD, StrV ''let'')
              \<and> toks ! (i + 1) = (IDENTIFIER, v))
    then 1 else 0)"
proof -
  let ?u = "collect_undeclared toks (declare_lets toks []) []"
  have "count_list (map UsedBeforeDeclaration ?u) (UsedBeforeDeclaration v) = count_list ?u v"
    by (rule count_list_map_inj) (simp add: inj_def)
  moreover have "distinct ?u"
    by (simp add: collect_undeclared_distinct)
  ultimately have "count_list (map UsedBeforeDeclaration ?u) (UsedBeforeDeclaration v)
      = (if v \<in> set ?u then 1 else 0)"
    by (simp add: count_list_distinct)
  moreover have "count_list (map LexicalError les) (UsedBeforeDeclaration v) = 0"
    by (rule count_list_map_other) simp
  moreover have "count_list (map (\<lambda>p. UnknownType (fst p)) (filter untyped table))
      (UsedBeforeDeclaration v) = 0"
    by (rule count_list_map_other) simp
  ultimately show ?thesis
    unfolding analyze_Success_errors count_list_append
    by (simp add: collect_undeclared_set declare_lets_set)
qed

theorem used_before_declaration_once_witness:
  "count_list (result_errors (analyze [] (Success [])
       [(IDENTIFIER, StrV ''y''), (IDENTIFIER, StrV ''y'')] SemanticAnalyzer_init))
     (UsedBeforeDeclaration (StrV ''y'')) = 1 \<and>
   count_list (result_errors (analyze [] (Success [])
       [(IDENTIFIER, StrV ''x''), (KEYWORD, StrV ''let''), (IDENTIFIER, StrV ''x'')]
       SemanticAnalyzer_init))
     (UsedBeforeDeclaration (StrV ''x'')) = 0"
proof -
  have a: "\<not> (\<exists>i. i + 1 < length [(IDENTIFIER, StrV ''y''), (IDENTIFIER, StrV ''y'')]
      \<and> [(IDENTIFIER, StrV ''y''), (IDENTIFIER, StrV ''y'')] ! i = (KEYWORD, StrV ''let'')
      \<and> [(IDENTIFIER, StrV ''y''), (IDENTIFIER, StrV ''y'')] ! (i + 1) = (IDENTIFIER, StrV ''y''))"
    by simp
  have b: "\<exists>i. i + 1 < length [(IDENTIFIER, StrV ''x''), (KEYWORD, StrV ''let''), (IDENTIFIER, StrV ''x'')]
      \<and> [(IDENTIFIER, StrV ''x''), (KEYWORD, StrV ''let''), (IDENTIFIER, StrV ''x'')] ! i
          = (KEYWORD, StrV ''let'')
      \<and> [(IDENTIFIER, StrV ''x''), (KEYWORD, StrV ''let''), (IDENTIFIER, StrV ''x'')] ! (i + 1)
          = (IDENTIFIER, StrV ''x'')"
    by (rule exI [of _ 1]) simp
  show ?thesis
    using a b
      used_before_declaration_once [of "[]" "[]"
        "[(IDENTIFIER, StrV ''y''), (IDENTIFIER, StrV ''y'')]" "StrV ''y''"]
      used_before_declaration_once [of "[]" "[]"
        "[(IDENTIFIER, StrV ''x''), (KEYWORD, StrV ''let''), (IDENTIFIER, StrV ''x'')]" "StrV ''x''"]
    by simp
qed

lemma pass_a_eq:
  "pass_a toks = map UsedBeforeDeclaration (collect_undeclared toks (declare_lets toks []) [])"
  by (simp add: pass_a_def check_variables_errors SemanticAnalyzer_init_def)

lemma pass_b_eq: "pass_b table = map (\<lambda>p. UnknownType (fst p)) (filter untyped table)"
  by (simp add: pass_b_def check_types_errors SemanticAnalyzer_init_def)

lemma analyze_Failure:
  "analyze les (Failure e) toks SemanticAnalyzer_init =
     \<lparr>success = False, result_errors = map LexicalError les @ [SyntacticError e],
      result_symbol_table = []\<rparr>"
  by (simp add: analyze_def SemanticAnalyzer_init_def)

lemma analyze_Success_success:
  "success (analyze les (Success table) toks SemanticAnalyzer_init) =
     (result_errors (analyze les (Success table) toks SemanticAnalyzer_init) = [])"
  by (simp add: analyze_def Let_def)

text \<open>
  Claim C6 says that the errors are the lexical errors followed by the errors of pass (a)
  and of pass (b). After a failed parse neither pass runs and the list ends with the syntax
  error: for the tokens of the source \<^verbatim>\<open>{\<close> it is no list of the claimed form.
\<close>

theorem aggregation_counterexample:
  "\<not> (\<exists>A B. result_errors (analyze [] (Failure (Expected DELIMITER None))
                   [(DELIMITER, StrV ''{'')] SemanticAnalyzer_init)
            = map LexicalError [] @ map UsedBeforeDeclaration A @ map UnknownType B)"
  by (auto simp: analyze_Failure Cons_eq_append_conv Cons_eq_map_conv)

text \<open>
  Claim C6, amended: the errors are the lexical errors in order, each marked as lexical,
  followed by the syntax error alone when the parse failed, and by the errors of pass (a)
  and then of pass (b) when it succeeded; \<open>success\<close> holds exactly when there is no lexical
  error, the parse succeeded and neither pass produced an error.
\<close>

theorem aggregation:
  "result_errors (analyze les pr toks SemanticAnalyzer_init) =
     map LexicalError les @
       (case pr of Failure e \<Rightarrow> [SyntacticError e] | Success table \<Rightarrow> pass_a toks @ pass_b table)
   \<and> success (analyze les pr toks SemanticAnalyzer_init) =
       (les = [] \<and> (case pr of Failure e \<Rightarrow> False
                     | Success table \<Rightarrow> pass_a toks = [] \<and> pass_b table = []))"
proof (cases pr)
  case (Success table)
  then show ?thesis
    unfolding Success analyze_Success_success
    by (simp add: analyze_Success_errors pass_a_eq pass_b_eq)
next
  case (Failure e)
  then show ?thesis by (simp add: analyze_Failure)
qed

section \<open>Properties of number values, of \<open>match\<close> and of concrete programs\<close>

lemma seq_simps [simp]:
  "seq (Inl e, self) f = (Inl e, self)"
  "seq (Inr x, self) f = f x self"
  "seq (return x self) f = f x self"
  "seq (raise e self) f = raise e self"
  by (simp_all add: seq_def return_def raise_def)

lemma seq_fuel_simps [simp]:
  "seq_fuel None g = None"
  "seq_fuel (Some (Inl e, self)) g = Some (Inl e, self)"
  "seq_fuel (Some (Inr x, self)) g = g x self"
  "seq_fuel (Some (return x self)) g = g x self"
  "seq_fuel (Some (raise e self)) g = Some (raise e self)"
  by (simp_all add: seq_fuel_def return_def raise_def)

lemma scan_tokens_numbers:
  "map snd (filter (\<lambda>t. fst t = NUMBER) (scan_tokens ms)) =
     map (\<lambda>m. number_value (group m)) (filter (\<lambda>m. lastgroup m = NUMBER) ms)"
  by (induction ms) auto

lemma number_value_int:
  "(\<exists>i. number_value v = IntV i) \<longleftrightarrow> CHR ''.'' \<notin> set v \<and> CHR ''E'' \<notin> set v \<and> CHR ''e'' \<notin> set v"
  by (auto simp: number_value_def)

lemma number_value_float:
  "(\<exists>x. number_value v = FloatV x) \<longleftrightarrow> CHR ''.'' \<in> set v \<or> CHR ''E'' \<in> set v \<or> CHR ''e'' \<in> set v"
  by (auto simp: number_value_def)

text \<open>
  Claim C7: the value of a \<open>NUMBER\<close> token is an integer exactly when the matched text has
  no \<^verbatim>\<open>.\<close>, \<^verbatim>\<open>E\<close> or \<^verbatim>\<open>e\<close>, and a float otherwise (the values of the \<open>NUMBER\<close> tokens are the
  values of the texts of the \<open>NUMBER\<close> matches, in order); \<^verbatim>\<open>10\<close> is an integer, \<^verbatim>\<open>10.5\<close> and
  \<^verbatim>\<open>1E3\<close> are floats; and \<open>check_types\<close> appends \<open>UnknownType name\<close> for exactly the entries of
  type \<^verbatim>\<open>variable\<close> whose value is present and neither an integer nor a float.
\<close>

theorem number_classification:
  "(\<exists>i. number_value v = IntV i) = (CHR ''.'' \<notin> set v \<and> CHR ''E'' \<notin> set v \<and> CHR ''e'' \<notin> set v)
   \<and> (\<exists>x. number_value v = FloatV x) = (CHR ''.'' \<in> set v \<or> CHR ''E'' \<in> set v \<or> CHR ''e'' \<in> set v)
   \<and> map snd (filter (\<lambda>t. fst t = NUMBER) (fst (tokenize program))) =
       map (\<lambda>m. number_value (group m))
         (filter (\<lambda>m. lastgroup m = NUMBER) (finditer 0 None program))
   \<and> fst (tokenize ''10'') = [(NUMBER, IntV 10)]
   \<and> fst (tokenize ''10.5'') = [(NUMBER, FloatV ''10.5'')]
   \<and> fst (tokenize ''1E3'') = [(NUMBER, FloatV ''1E3'')]
   \<and> errors (check_types self) =
       errors self @ map (\<lambda>p. UnknownType (fst p))
         (filter (\<lambda>p. entry_type (snd p) = ''variable'' \<and>
             (\<exists>v. entry_value (snd p) = Some v \<and> \<not> isinstance_int v \<and> \<not> isinstance_float v))
           (sem_symbol_table self))"
proof -
  have a: "fst (tokenize ''10'') = [(NUMBER, IntV 10)]" by code_simp
  have b: "fst (tokenize ''10.5'') = [(NUMBER, FloatV ''10.5'')]" by code_simp
  have c: "fst (tokenize ''1E3'') = [(NUMBER, FloatV ''1E3'')]" by code_simp
  have d: "map snd (filter (\<lambda>t. fst t = NUMBER) (fst (tokenize program))) =
       map (\<lambda>m. number_value (group m))
         (filter (\<lambda>m. lastgroup m = NUMBER) (finditer 0 None program))"
    by (simp add: tokenize_def scan_tokens_numbers)
  have e: "untyped = (\<lambda>p. entry_type (snd p) = ''variable'' \<and>
             (\<exists>v. entry_value (snd p) = Some v \<and> \<not> isinstance_int v \<and> \<not> isinstance_float v))"
    by (simp add: fun_eq_iff untyped_def)
  show ?thesis
    using a b c d number_value_int [of v] number_value_float [of v] check_types_errors [of self]
    unfolding e by blast
qed

lemmas parser_defs = match_def parse_expression.simps parse_declaration_def
  parse_assignment_def parse_input_def parse_output_def parse_statement.simps
  parse_conditional.simps parse_fixed_loop.simps parse_while_loop.simps
  parse_compound_statement.simps compound_loop.simps program_loop.simps parse_program_def
  parse_def SyntaxAnalyzer_init_def

text \<open>
  Claim C4: if the token at the cursor has the expected kind, \<open>match\<close> returns it and moves
  the cursor on by one; otherwise it raises the syntax error that names the expected kind
  and the token found, or the end of input, and leaves the cursor where it was. The
  tokens of \<^verbatim>\<open>{ let y 20 ; }\<close> parse to the failure that expected \<open>ASSIGN\<close> and found the
  number 20.
\<close>

theorem match_consumes_or_fails:
  "(current_token self < length (tokens self) \<and> fst (tokens self ! current_token self) = k \<longrightarrow>
      match k self = (Inr (tokens self ! current_token self),
                      self\<lparr>current_token := current_token self + 1\<rparr>))
   \<and> (\<not> (current_token self < length (tokens self) \<and> fst (tokens self ! current_token self) = k) \<longrightarrow>
      match k self = (Inl (SyntaxError (Expected k
                        (if current_token self < length (tokens self)
                         then Some (tokens self ! current_token self) else None))), self))
   \<and> fst (tokenize ''{ let y 20 ; }'') =
       [(DELIMITER, StrV ''{''), (KEYWORD, StrV ''let''), (IDENTIFIER, StrV ''y''),
        (NUMBER, IntV 20), (DELIMITER, StrV '';''), (DELIMITER, StrV ''}'')]
   \<and> (\<forall>n. map_option fst (parse (Suc n) (SyntaxAnalyzer_init (fst (tokenize ''{ let y 20 ; }''))))
         = Some (Inr (Failure (Expected ASSIGN (Some (NUMBER, IntV 20))))))"
proof -
  have t: "fst (tokenize ''{ let y 20 ; }'') =
       [(DELIMITER, StrV ''{''), (KEYWORD, StrV ''let''), (IDENTIFIER, StrV ''y''),
        (NUMBER, IntV 20), (DELIMITER, StrV '';''), (DELIMITER, StrV ''}'')]"
    by code_simp
  have p: "map_option fst (parse (Suc n) (SyntaxAnalyzer_init (fst (tokenize ''{ let y 20 ; }''))))
         = Some (Inr (Failure (Expected ASSIGN (Some (NUMBER, IntV 20)))))" for n
    unfolding t by (simp add: parser_defs return_def raise_def)
  show ?thesis
    using t p by (simp add: match_def return_def raise_def)
qed

theorem match_consumes_or_fails_witness:
  "match KEYWORD \<lparr>tokens = [(KEYWORD, StrV ''let'')], current_token = 0, symbol_table = []\<rparr>
     = (Inr (KEYWORD, StrV ''let''),
        \<lparr>tokens = [(KEYWORD, StrV ''let'')], current_token = 1, symbol_table = []\<rparr>)
   \<and> match ASSIGN \<lparr>tokens = [(KEYWORD, StrV ''let'')], current_token = 0, symbol_table = []\<rparr>
     = (Inl (SyntaxError (Expected ASSIGN (Some (KEYWORD, StrV ''let'')))),
        \<lparr>tokens = [(KEYWORD, StrV ''let'')], current_token = 0, symbol_table = []\<rparr>)
   \<and> match ASSIGN \<lparr>tokens = [(KEYWORD, StrV ''let'')], current_token = 1, symbol_table = []\<rparr>
     = (Inl (SyntaxError (Expected ASSIGN None)),
        \<lparr>tokens = [(KEYWORD, StrV ''let'')], current_token = 1, symbol_table = []\<rparr>)"
  using
    match_consumes_or_fails [of
      "\<lparr>tokens = [(KEYWORD, StrV ''let'')], current_token = 0, symbol_table = []\<rparr>" KEYWORD]
    match_consumes_or_fails [of
      "\<lparr>tokens = [(KEYWORD, StrV ''let'')], current_token = 0, symbol_table = []\<rparr>" ASSIGN]
    match_consumes_or_fails [of
      "\<lparr>tokens = [(KEYWORD, StrV ''let'')], current_token = 1, symbol_table = []\<rparr>" ASSIGN]
  by simp

text \<open>
  Claim C1 at the source \<^verbatim>\<open>{ x\<close>: the look-ahead of \<open>parse_statement\<close> reads past the last
  token, and the \<^verbatim>\<open>IndexError\<close> leaves \<open>analyze_program\<close> uncaught.
\<close>

theorem lookahead_raises_IndexError:
  "\<forall>n. analyze_program (Suc (Suc n)) ''{ x'' = Some (Inl IndexError)"
proof
  fix n
  have t: "tokenize ''{ x'' = ([(DELIMITER, StrV ''{''), (IDENTIFIER, StrV ''x'')], [])"
    by code_simp
  show "analyze_program (Suc (Suc n)) ''{ x'' = Some (Inl IndexError)"
    unfolding analyze_program_def t
    by (simp add: parser_defs return_def raise_def)
qed

lemma stuck_loop:
  "program_loop n \<lparr>tokens = [(DELIMITER, StrV ''{''), (KEYWORD, StrV ''then''),
       (DELIMITER, StrV ''}'')], current_token = Suc 0, symbol_table = []\<rparr> = None"
proof (induction n)
  case 0
  then show ?case by (simp add: program_loop.simps)
next
  case (Suc n)
  then show ?case
    by (cases n) (simp_all add: program_loop.simps parse_statement.simps return_def)
qed

text \<open>
  Claim C2 at the source \<^verbatim>\<open>{ then }\<close>: \<open>parse_statement\<close> returns on the keyword \<^verbatim>\<open>then\<close>
  without consuming it, and the loop of \<open>parse_program\<close> never ends: no fuel suffices.
\<close>

theorem statement_loop_never_returns:
  "\<forall>n. analyze_program n ''{ then }'' = None"
proof
  fix n
  have t: "tokenize ''{ then }'' =
      ([(DELIMITER, StrV ''{''), (KEYWORD, StrV ''then''), (DELIMITER, StrV ''}'')], [])"
    by code_simp
  show "analyze_program n ''{ then }'' = None"
    unfolding analyze_program_def t
    by (simp add: parser_defs return_def raise_def stuck_loop)
qed

text \<open>
  Claim C8 at the tokens of \<^verbatim>\<open>{ output\<close>: \<open>parse_expression\<close> needs a token when the cursor
  is at the end of the stream, and the outcome is an \<^verbatim>\<open>IndexError\<close>, not a syntax error for
  the end of input.
\<close>

theorem exhausted_stream_IndexError:
  "\<forall>n. parse (Suc (Suc n))
         (SyntaxAnalyzer_init [(DELIMITER, StrV ''{''), (KEYWORD, StrV ''output'')])
       = Some (Inl IndexError,
           \<lparr>tokens = [(DELIMITER, StrV ''{''), (KEYWORD, StrV ''output'')], current_token = 2,
            symbol_table = []\<rparr>)"
  by (simp add: parser_defs return_def raise_def)

text \<open>
  Claim C3 at the sources \<^verbatim>\<open>10.5\<close> and \<^verbatim>\<open>/*$*/\<close>: the second loop reports the decimal
  point and the dollar sign, although each lies inside the one match of the scan.
\<close>

theorem second_pass_reports_consumed_character:
  "tokenize ''10.5'' = ([(NUMBER, FloatV ''10.5'')], [UnknownSymbol CHR ''.''])
   \<and> finditer 0 None ''10.5'' = [\<lparr>lastgroup = NUMBER, start = 0, group = ''10.5''\<rparr>]
   \<and> tokenize ''/*$*/'' = ([], [UnknownSymbol CHR ''$''])
   \<and> finditer 0 None ''/*$*/'' = [\<lparr>lastgroup = COMMENT, start = 0, group = ''/*$*/''\<rparr>]"
  by code_simp

section \<open>More fuel does not change a result\<close>

lemma fuel_le_statement:
  "fuel_le n m \<Longrightarrow> parse_statement n s = Some r \<Longrightarrow> parse_statement m s = Some r"
  unfolding fuel_le_def by blast

lemma fuel_le_loop:
  "fuel_le n m \<Longrightarrow> compound_loop n s = Some r \<Longrightarrow> compound_loop m s = Some r"
  unfolding fuel_le_def by blast

lemma seq_fuel_mono:
  assumes "seq_fuel a f = Some r" "\<And>x. a = Some x \<Longrightarrow> b = Some x"
    "\<And>x s. f x s = Some r \<Longrightarrow> g x s = Some r"
  shows "seq_fuel b g = Some r"
  using assms by (auto simp: seq_fuel_def split: option.splits prod.splits sum.splits)

lemma compound_mono:
  assumes "fuel_le n m" "parse_compound_statement n s = Some r"
  shows "parse_compound_statement m s = Some r"
  using assms(2) unfolding parse_compound_statement.simps
  by (elim seq_fuel_mono) (auto intro: fuel_le_loop [OF assms(1)])

lemma conditional_mono:
  assumes "fuel_le n m" "parse_conditional n s = Some r"
  shows "parse_conditional m s = Some r"
  using assms(2) unfolding parse_conditional.simps
  by (elim seq_fuel_mono) (auto split: if_splits intro: compound_mono [OF assms(1)]
      elim!: seq_fuel_mono)

lemma fixed_loop_mono:
  assumes "fuel_le n m" "parse_fixed_loop n s = Some r"
  shows "parse_fixed_loop m s = Some r"
  using assms(2) unfolding parse_fixed_loop.simps
  by (elim seq_fuel_mono) (auto intro: compound_mono [OF assms(1)])

lemma while_loop_mono:
  assumes "fuel_le n m" "parse_while_loop n s = Some r"
  shows "parse_while_loop m s = Some r"
  using assms(2) unfolding parse_while_loop.simps
  by (elim seq_fuel_mono) (auto intro: compound_mono [OF assms(1)])

lemma fuel_le_Suc:
  assumes "fuel_le n m"
  shows "fuel_le (Suc n) (Suc m)"
  unfolding fuel_le_def
proof (intro allI conjI impI)
  fix s r
  assume "parse_statement (Suc n) s = Some r"
  then show "parse_statement (Suc m) s = Some r"
    unfolding parse_statement.simps
    by (auto simp: Let_def split: if_splits
        intro: compound_mono [OF assms] conditional_mono [OF assms] fixed_loop_mono [OF assms]
          while_loop_mono [OF assms])
next
  fix s r
  assume "compound_loop (Suc n) s = Some r"
  then show "compound_loop (Suc m) s = Some r"
    unfolding compound_loop.simps
    by (auto split: if_splits elim!: seq_fuel_mono
        intro: fuel_le_loop [OF assms] fuel_le_statement [OF assms])
qed

lemma fuel_le: "n \<le> m \<Longrightarrow> fuel_le n m"
proof (induction n arbitrary: m)
  case 0
  show ?case by (simp add: fuel_le_def parse_statement.simps compound_loop.simps)
next
  case (Suc n)
  then obtain m' where "m = Suc m'" "n \<le> m'" by (cases m) auto
  with Suc.IH show ?case by (simp add: fuel_le_Suc)
qed

lemma program_loop_mono: "program_loop n s = Some r \<Longrightarrow> n \<le> m \<Longrightarrow> program_loop m s = Some r"
proof (induction n arbitrary: m s)
  case 0
  then show ?case by (simp add: program_loop.simps)
next
  case (Suc n)
  then obtain m' where m: "m = Suc m'" "n \<le> m'" by (cases m) auto
  have st: "parse_statement m' s = Some x" if "parse_statement n s = Some x" for s x
    using fuel_le [OF m(2)] that by (rule fuel_le_statement)
  from Suc.prems(1) show ?case
    unfolding m program_loop.simps
    by (auto split: if_splits elim!: seq_fuel_mono intro: st Suc.IH [OF _ m(2)])
qed

lemma parse_mono:
  assumes "parse n s = Some r" "n \<le> m"
  shows "parse m s = Some r"
proof -
  from assms(1) obtain x where x: "parse_program n s = Some x"
    by (auto simp: parse_def split: option.splits)
  then have "parse_program m s = Some x"
    unfolding parse_program_def
    by (elim seq_fuel_mono) (auto intro: program_loop_mono [OF _ assms(2)] elim!: seq_fuel_mono)
  with x assms(1) show ?thesis by (simp add: parse_def)
qed

lemma parse_deterministic:
  assumes "parse n s = Some r" "parse m s = Some r'"
  shows "r = r'"
  using parse_mono [OF assms(1), of "max n m"] parse_mono [OF assms(2), of "max n m"] by simp

lemma analyze_program_mono:
  assumes "analyze_program n program = Some r" "n \<le> m"
  shows "analyze_program m program = Some r"
proof -
  obtain toks les where t: "tokenize program = (toks, les)" by (cases "tokenize program")
  from assms(1) obtain x where x: "parse n (SyntaxAnalyzer_init toks) = Some x"
    by (auto simp: analyze_program_def t split: option.splits)
  then have "parse m (SyntaxAnalyzer_init toks) = Some x" using assms(2) by (rule parse_mono)
  with x assms(1) show ?thesis by (simp add: analyze_program_def t)
qed

section \<open>The keys of the symbol table\<close>

lemma targets_split:
  "a \<le> b \<Longrightarrow> b \<le> c \<Longrightarrow> targets ts a c = targets ts a b \<union> targets ts b c"
  by (fastforce simp: targets_def)

lemma targets_empty: "(\<And>i. a \<le> i \<Longrightarrow> i < b \<Longrightarrow> \<not> lhs_at ts i) \<Longrightarrow> targets ts a b = {}"
  by (auto simp: targets_def)

lemma targets_one: "targets ts a (Suc a) = (if lhs_at ts a then {snd (ts ! a)} else {})"
  by (auto simp: targets_def less_Suc_eq_le)

lemma targets_not_ident: "fst (ts ! a) \<noteq> IDENTIFIER \<Longrightarrow> targets ts a (Suc a) = {}"
  by (simp add: targets_one lhs_at_def)

lemma targets_not_assign:
  "Suc a < length ts \<longrightarrow> fst (ts ! Suc a) \<noteq> ASSIGN \<Longrightarrow> targets ts a (Suc a) = {}"
  by (auto simp: targets_one lhs_at_def)

lemma match_Inr:
  assumes "match k s = (Inr tok, s')"
  shows "s' = s\<lparr>current_token := Suc (current_token s)\<rparr>" "current_token s < length (tokens s)"
    "fst (tokens s ! current_token s) = k" "tok = tokens s ! current_token s"
  using assms by (auto simp: match_def return_def raise_def split: if_splits)

lemma seq_Inr:
  assumes "seq r f = (Inr y, s')"
  obtains x s1 where "r = (Inr x, s1)" "f x s1 = (Inr y, s')"
  using assms by (auto simp: seq_def split: prod.splits sum.splits)

lemma seq_fuel_Inr:
  assumes "seq_fuel r f = Some (Inr y, s')"
  obtains x s1 where "r = Some (Inr x, s1)" "f x s1 = Some (Inr y, s')"
  using assms by (auto simp: seq_fuel_def split: option.splits prod.splits sum.splits)

lemma parse_expression_span: "parse_expression s = (Inr v, s') \<Longrightarrow> expr_span s s'"
proof (induction s arbitrary: v rule: parse_expression.induct)
  case (1 s)
  let ?c = "current_token s"
  let ?ts = "tokens s"
  from "1.prems" have c: "?c < length ?ts"
    by (subst (asm) parse_expression.simps) (auto simp: raise_def split: if_splits)
  from "1.prems" have k: "fst (?ts ! ?c) \<in> {IDENTIFIER, NUMBER}"
    by (subst (asm) parse_expression.simps) (auto simp: raise_def Let_def c split: if_splits)
  define s1 where "s1 = s\<lparr>current_token := Suc ?c\<rparr>"
  have m: "match (fst (?ts ! ?c)) s = (Inr (?ts ! ?c), s1)"
    using c by (simp add: match_def return_def s1_def)
  show ?case
  proof (cases "Suc ?c < length ?ts \<and> fst (?ts ! Suc ?c) = REL_OP")
    case False
    with "1.prems" c k m have "s' = s1"
      by (subst (asm) parse_expression.simps) (auto simp: Let_def return_def s1_def)
    with c k show ?thesis
      by (auto simp: expr_span_def s1_def)
  next
    case True
    define s2 where "s2 = s1\<lparr>current_token := Suc (Suc ?c)\<rparr>"
    have m2: "match REL_OP s1 = (Inr (?ts ! Suc ?c), s2)"
      using True by (simp add: match_def return_def s1_def s2_def)
    from "1.prems" c k m m2 True obtain r where r: "parse_expression s2 = (Inr r, s')"
      by (subst (asm) parse_expression.simps)
         (auto simp: Let_def return_def s1_def elim!: seq_Inr)
    have ih: "expr_span s2 s'"
      using c k m True m2 r
      by (intro "1.IH" [OF _ refl k m _ m2 r]) (simp_all add: s1_def)
    have "\<not> (fst (?ts ! i) = IDENTIFIER \<and> fst (?ts ! Suc i) = ASSIGN)"
      if le: "?c \<le> i" and lt: "Suc i < current_token s'" for i
    proof -
      consider "i = ?c" | "i = Suc ?c" | "Suc (Suc ?c) \<le> i" using le by linarith
      then show ?thesis
      proof cases
        case 1
        with True show ?thesis by simp
      next
        case 2
        with True show ?thesis by simp
      next
        case 3
        with ih lt show ?thesis by (simp add: expr_span_def s1_def s2_def)
      qed
    qed
    with ih show ?thesis
      by (simp add: expr_span_def s1_def s2_def)
  qed
qed


lemma exact_refl: "exact s s"
  by (auto simp: exact_def targets_def)

lemma exact_trans: "exact s s1 \<Longrightarrow> exact s1 s2 \<Longrightarrow> exact s s2"
  using targets_split [of "current_token s" "current_token s1" "current_token s2" "tokens s"]
  by (auto simp: exact_def)

lemma exact_pending: "exact s s' \<Longrightarrow> pending s s'"
  by (simp add: exact_def pending_def)

lemma pending_exact: "pending s s' \<Longrightarrow> next_ok (tokens s) (current_token s') \<Longrightarrow> exact s s'"
  by (simp add: exact_def pending_def)

lemma exact_then_pending: "exact s s1 \<Longrightarrow> pending s1 s2 \<Longrightarrow> pending s s2"
  using targets_split [of "current_token s" "current_token s1" "current_token s2" "tokens s"]
  by (auto simp: exact_def pending_def)

lemma pending_trans:
  assumes "pending s s1" "pending s1 s2"
    and "next_ok (tokens s) (current_token s2) \<Longrightarrow> next_ok (tokens s) (current_token s1)"
  shows "pending s s2"
proof -
  have t: "tokens s1 = tokens s" using assms(1) by (simp add: pending_def)
  show ?thesis
  proof (cases "next_ok (tokens s) (current_token s2)")
    case True
    with assms(3) have "exact s s1" using assms(1) by (simp add: pending_exact)
    moreover from True have "exact s1 s2" using assms(2) t by (simp add: pending_exact)
    ultimately show ?thesis by (blast intro: exact_trans exact_pending)
  next
    case False
    with assms(1,2) show ?thesis by (simp add: pending_def)
  qed
qed

lemma match_exact:
  assumes "match k s = (Inr tok, s')" "k \<noteq> IDENTIFIER"
  shows "exact s s'"
  using match_Inr [OF assms(1)] assms(2)
  by (simp add: exact_def keys_def targets_not_ident)

lemma match_identifier_exact:
  assumes "match IDENTIFIER s = (Inr tok, s')"
    and "next_ok (tokens s) (Suc (current_token s))
         \<or> (0 < current_token s \<and> tokens s ! (current_token s - 1) = (KEYWORD, StrV ''for''))"
  shows "exact s s'"
  using match_Inr [OF assms(1)] assms(2)
  by (auto simp: exact_def keys_def targets_one lhs_at_def next_ok_def)

lemma match_next_ok:
  assumes "match k s = (Inr tok, s')" "k \<noteq> ASSIGN"
  shows "next_ok (tokens s) (current_token s)"
  using match_Inr [OF assms(1)] assms(2) by (simp add: next_ok_def)

lemma match_prev_ok:
  assumes "match k s = (Inr tok, s')" "k \<noteq> KEYWORD"
  shows "prev_ok (tokens s) (current_token s')"
  using match_Inr [OF assms(1)] assms(2) by (simp add: prev_ok_def)

lemma match_tokens:
  assumes "match k s = (Inr tok, s')"
  shows "tokens s' = tokens s"
  using match_Inr [OF assms] by simp

lemma expr_targets:
  assumes "parse_expression s = (Inr v, s')" "next_ok (tokens s) (current_token s')"
  shows "targets (tokens s) (current_token s) (current_token s') = {}"
proof (rule targets_empty)
  have sp: "expr_span s s'" using assms(1) by (rule parse_expression_span)
  fix i assume i: "current_token s \<le> i" "i < current_token s'"
  show "\<not> lhs_at (tokens s) i"
  proof (cases "Suc i < current_token s'")
    case True
    with sp i show ?thesis by (auto simp: expr_span_def lhs_at_def)
  next
    case False
    with i have "Suc i = current_token s'" by simp
    with assms(2) show ?thesis by (auto simp: next_ok_def lhs_at_def)
  qed
qed

lemma expr_pending:
  assumes "parse_expression s = (Inr v, s')"
  shows "pending s s'"
  using parse_expression_span [OF assms] expr_targets [OF assms]
  by (auto simp: pending_def expr_span_def keys_def)

lemma expr_prev_ok: "parse_expression s = (Inr v, s') \<Longrightarrow> prev_ok (tokens s) (current_token s')"
  by (drule parse_expression_span) (auto simp: expr_span_def prev_ok_def)

lemma expr_tokens: "parse_expression s = (Inr v, s') \<Longrightarrow> tokens s' = tokens s"
  by (drule parse_expression_span) (simp add: expr_span_def)

lemma expr_table: "parse_expression s = (Inr v, s') \<Longrightarrow> symbol_table s' = symbol_table s"
  by (drule parse_expression_span) (simp add: expr_span_def)

text \<open>An expression and the token matched after it.\<close>

lemma expr_then_match:
  assumes "parse_expression s = (Inr v, s1)" "match k s1 = (Inr tok, s2)" "k \<noteq> ASSIGN"
    "k \<noteq> IDENTIFIER"
  shows "exact s s2"
proof -
  have t: "tokens s1 = tokens s" using assms(1) by (rule expr_tokens)
  have "next_ok (tokens s) (current_token s1)"
    using match_next_ok [OF assms(2,3)] t by simp
  then have "exact s s1" using expr_pending [OF assms(1)] by (simp add: pending_exact)
  moreover have "exact s1 s2" using assms(2,4) by (rule match_exact)
  ultimately show ?thesis by (rule exact_trans)
qed

lemma return_Inr: "return x s = (Inr y, s') \<longleftrightarrow> x = y \<and> s' = s"
  by (auto simp: return_def)

lemma silent_trans: "silent s s1 \<Longrightarrow> silent s1 s2 \<Longrightarrow> silent s s2"
  using targets_split [of "current_token s" "current_token s1" "current_token s2" "tokens s"]
  by (auto simp: silent_def)

lemma silent_exact: "silent s s' \<Longrightarrow> exact s s'"
  by (simp add: silent_def exact_def keys_def)

lemma match_silent:
  assumes "match k s = (Inr tok, s')" "k \<noteq> IDENTIFIER"
  shows "silent s s'"
  using match_Inr [OF assms(1)] assms(2)
  by (simp add: silent_def targets_not_ident)

lemma match_identifier_silent:
  assumes "match IDENTIFIER s = (Inr tok, s')"
    and "next_ok (tokens s) (Suc (current_token s))
         \<or> (0 < current_token s \<and> tokens s ! (current_token s - 1) = (KEYWORD, StrV ''for''))"
  shows "silent s s'"
  using match_Inr [OF assms(1)] assms(2)
  by (auto simp: silent_def targets_one lhs_at_def next_ok_def)

lemma expr_silent:
  assumes "parse_expression s = (Inr v, s')" "next_ok (tokens s) (current_token s')"
  shows "silent s s'"
  using expr_targets [OF assms] parse_expression_span [OF assms(1)]
  by (simp add: silent_def expr_span_def)


lemma expr_then_match_silent:
  assumes "parse_expression s = (Inr v, s1)" "match k s1 = (Inr tok, s2)" "k \<noteq> ASSIGN"
    "k \<noteq> IDENTIFIER"
  shows "silent s s2"
proof -
  have t: "tokens s1 = tokens s" using assms(1) by (rule expr_tokens)
  have "next_ok (tokens s) (current_token s1)"
    using match_next_ok [OF assms(2,3)] t by simp
  then have "silent s s1" using assms(1) by (simp add: expr_silent)
  moreover have "silent s1 s2" using assms(2,4) by (rule match_silent)
  ultimately show ?thesis by (rule silent_trans)
qed

lemma parse_input_exact:
  assumes "parse_input s = (Inr u, s')"
  shows "exact s s' \<and> prev_ok (tokens s) (current_token s')"
proof -
  from assms obtain t1 s1 t2 s2 t3 where
    m1: "match KEYWORD s = (Inr t1, s1)" and m2: "match IDENTIFIER s1 = (Inr t2, s2)"
    and m3: "match DELIMITER s2 = (Inr t3, s')"
    by (auto simp: parse_input_def return_Inr elim!: seq_Inr)
  note ts = match_tokens [OF m1] match_tokens [OF m2] match_tokens [OF m3]
  have "next_ok (tokens s1) (Suc (current_token s1))"
    using match_next_ok [OF m3] match_Inr(1) [OF m2] by simp
  then have "silent s1 s2" using m2 by (simp add: match_identifier_silent)
  moreover have "silent s s1" using m1 by (simp add: match_silent)
  moreover have "silent s2 s'" using m3 by (simp add: match_silent)
  ultimately have "silent s s'" by (blast intro: silent_trans)
  moreover have "prev_ok (tokens s) (current_token s')"
    using match_prev_ok [OF m3] ts by simp
  ultimately show ?thesis by (simp add: silent_exact)
qed

lemma parse_output_exact:
  assumes "parse_output s = (Inr u, s')"
  shows "exact s s' \<and> prev_ok (tokens s) (current_token s')"
proof -
  from assms obtain t1 s1 v s2 t3 where
    m1: "match KEYWORD s = (Inr t1, s1)" and e: "parse_expression s1 = (Inr v, s2)"
    and m3: "match DELIMITER s2 = (Inr t3, s')"
    by (auto simp: parse_output_def return_Inr elim!: seq_Inr)
  note ts = match_tokens [OF m1] expr_tokens [OF e] match_tokens [OF m3]
  have "silent s s1" using m1 by (simp add: match_silent)
  moreover have "silent s1 s'" using e m3 by (rule expr_then_match_silent) simp_all
  ultimately have "silent s s'" by (rule silent_trans)
  moreover have "prev_ok (tokens s) (current_token s')"
    using match_prev_ok [OF m3] ts by simp
  ultimately show ?thesis by (simp add: silent_exact)
qed

text \<open>The target at \<open>c\<close>, then a silent stretch, then the store under the target's name.\<close>

lemma stored_exact:
  assumes "lhs_at (tokens s) c" "silent s1 s4" "current_token s1 = Suc c"
    "tokens s1 = tokens s" "symbol_table s1 = symbol_table s"
    "tokens s' = tokens s4" "current_token s' = current_token s4"
    "keys s' = insert (snd (tokens s ! c)) (keys s4)"
  shows "keys s' = keys s \<union> targets (tokens s) c (current_token s')"
proof -
  have "targets (tokens s) c (current_token s4) =
      targets (tokens s) c (Suc c) \<union> targets (tokens s) (Suc c) (current_token s4)"
    using assms(2,3) by (intro targets_split) (simp_all add: silent_def)
  with assms show ?thesis
    by (simp add: silent_def keys_def targets_one)
qed

lemma assignment_keys:
  "fst ` set (if k \<in> fst ` set table then AList.map_entry k f table
              else AList.update k v table) = insert k (fst ` set table)"
  by (simp add: dom_update dom_map_entry insert_absorb)

lemma declaration_keys:
  "fst ` set (AList.map_entry k f (AList.update k v table)) = insert k (fst ` set table)"
  by (simp add: dom_update dom_map_entry)

lemma parse_assignment_exact:
  assumes "parse_assignment s = (Inr u, s')" "prev_ok (tokens s) (current_token s)"
  shows "exact s s' \<and> prev_ok (tokens s) (current_token s')"
proof -
  from assms(1) obtain t1 s1 t2 s2 v s3 t4 s4 where
    m1: "match IDENTIFIER s = (Inr t1, s1)" and m2: "match ASSIGN s1 = (Inr t2, s2)"
    and e: "parse_expression s2 = (Inr v, s3)" and m4: "match DELIMITER s3 = (Inr t4, s4)"
    and s': "tokens s' = tokens s4" "current_token s' = current_token s4"
      "keys s' = insert (snd t1) (keys s4)"
  proof -
    from assms(1) obtain t1 s1 t2 s2 v s3 t4 s4 where
      "match IDENTIFIER s = (Inr t1, s1)" "match ASSIGN s1 = (Inr t2, s2)"
      "parse_expression s2 = (Inr v, s3)" "match DELIMITER s3 = (Inr t4, s4)"
      "s' = s4\<lparr>symbol_table :=
          (if snd t1 \<in> fst ` set (symbol_table s4)
           then AList.map_entry (snd t1) (\<lambda>info. info\<lparr>entry_value := Some v\<rparr>) (symbol_table s4)
           else AList.update (snd t1)
                  \<lparr>entry_type = ''variable'', entry_value = Some v, declared = False\<rparr>
                  (symbol_table s4))\<rparr>"
      unfolding parse_assignment_def
      by (elim seq_Inr) (auto simp: return_Inr split: if_splits)
    then show ?thesis
      using that [of t1 s1 t2 s2 v s3 t4 s4] by (simp add: keys_def assignment_keys)
  qed
  note ts = match_tokens [OF m1] match_tokens [OF m2] expr_tokens [OF e] match_tokens [OF m4]
  note a = match_Inr [OF m1] and b = match_Inr [OF m2]
  have lhs: "lhs_at (tokens s) (current_token s)"
    using a b assms(2) by (auto simp: lhs_at_def prev_ok_def)
  have "silent s1 s2" using m2 by (simp add: match_silent)
  moreover have "silent s2 s4" using e m4 by (rule expr_then_match_silent) simp_all
  ultimately have si: "silent s1 s4" by (rule silent_trans)
  have "keys s' = keys s \<union> targets (tokens s) (current_token s) (current_token s')"
    using lhs si a s' by (intro stored_exact [where ?s1.0 = s1 and ?s4.0 = s4]) simp_all
  moreover have "current_token s \<le> current_token s'"
    using si a s' by (simp add: silent_def)
  moreover have "prev_ok (tokens s) (current_token s')"
    using match_prev_ok [OF m4] ts s' by simp
  ultimately show ?thesis using ts s' by (simp add: exact_def)
qed

lemma parse_declaration_exact:
  assumes "parse_declaration s = (Inr u, s')"
    "tokens s ! current_token s = (KEYWORD, StrV ''let'')"
  shows "exact s s' \<and> prev_ok (tokens s) (current_token s')"
proof -
  from assms(1) obtain t0 s0 t1 s1 t2 s2 v s3 t4 s4 where
    m0: "match KEYWORD s = (Inr t0, s0)"
    and m1: "match IDENTIFIER s0 = (Inr t1, s1)" and m2: "match ASSIGN s1 = (Inr t2, s2)"
    and e: "parse_expression s2 = (Inr v, s3)" and m4: "match DELIMITER s3 = (Inr t4, s4)"
    and s': "tokens s' = tokens s4" "current_token s' = current_token s4"
      "keys s' = insert (snd t1) (keys s4)"
  proof -
    from assms(1) obtain t0 s0 t1 s1 t2 s2 v s3 t4 s4 where
      "match KEYWORD s = (Inr t0, s0)"
      "match IDENTIFIER s0 = (Inr t1, s1)" "match ASSIGN s1 = (Inr t2, s2)"
      "parse_expression s2 = (Inr v, s3)" "match DELIMITER s3 = (Inr t4, s4)"
      "s' = s4\<lparr>symbol_table :=
          AList.map_entry (snd t1) (\<lambda>info. info\<lparr>declared := True\<rparr>)
            (AList.update (snd t1)
               \<lparr>entry_type = ''variable'', entry_value = Some v, declared = False\<rparr>
               (symbol_table s4))\<rparr>"
      unfolding parse_declaration_def
      by (elim seq_Inr) (auto simp: return_Inr Let_def)
    then show ?thesis
      using that [of t0 s0 t1 s1 t2 s2 v s3 t4 s4] by (simp add: keys_def declaration_keys)
  qed
  note ts = match_tokens [OF m0] match_tokens [OF m1] match_tokens [OF m2] expr_tokens [OF e]
    match_tokens [OF m4]
  note z = match_Inr [OF m0] and a = match_Inr [OF m1] and b = match_Inr [OF m2]
  have lhs: "lhs_at (tokens s0) (current_token s0)"
    using z a b assms(2) by (auto simp: lhs_at_def)
  have "silent s1 s2" using m2 by (simp add: match_silent)
  moreover have "silent s2 s4" using e m4 by (rule expr_then_match_silent) simp_all
  ultimately have si: "silent s1 s4" by (rule silent_trans)
  have "keys s' = keys s0 \<union> targets (tokens s0) (current_token s0) (current_token s')"
    using lhs si a s' by (intro stored_exact [where ?s1.0 = s1 and ?s4.0 = s4]) simp_all
  moreover have "current_token s0 \<le> current_token s'"
    using si a s' by (simp add: silent_def)
  ultimately have "exact s0 s'" using ts s' by (simp add: exact_def)
  moreover have "exact s s0" using m0 by (simp add: match_silent silent_exact)
  ultimately have "exact s s'" by (blast intro: exact_trans)
  moreover have "prev_ok (tokens s) (current_token s')"
    using match_prev_ok [OF m4] ts s' by simp
  ultimately show ?thesis by simp
qed

lemma starts_next_ok: "starts s \<Longrightarrow> next_ok (tokens s) (current_token s)"
  by (simp add: starts_def next_ok_def)

lemma Some_eq_Inr: "Some r = Some (Inr x, s1) \<longleftrightarrow> r = (Inr x, s1)"
  by simp

lemma compound_block:
  assumes "loop_spec n" "parse_compound_statement n s = Some (Inr u, s')"
  shows "block_post s s'"
proof -
  from assms(2) obtain t1 s1 u2 s2 t3 where
    m1: "match DELIMITER s = (Inr t1, s1)" and l: "compound_loop n s1 = Some (Inr u2, s2)"
    and m3: "match DELIMITER s2 = (Inr t3, s')"
    unfolding parse_compound_statement.simps
    by (elim seq_fuel_Inr) (auto simp: return_Inr)
  have t1: "tokens s1 = tokens s" using m1 by (rule match_tokens)
  have p1: "prev_ok (tokens s1) (current_token s1)"
    using match_prev_ok [OF m1] t1 by simp
  from assms(1) l have "loop_post s1 s2" by (auto simp: loop_spec_def)
  with p1 have pe: "pending s1 s2" by (simp add: loop_post_def)
  then have t2: "tokens s2 = tokens s1" by (simp add: pending_def)
  have "next_ok (tokens s1) (current_token s2)"
    using match_next_ok [OF m3] t2 by simp
  with pe have "exact s1 s2" by (rule pending_exact)
  moreover have "exact s s1" using m1 by (simp add: match_silent silent_exact)
  moreover have "exact s2 s'" using m3 by (simp add: match_silent silent_exact)
  ultimately have "exact s s'" by (blast intro: exact_trans)
  moreover have "prev_ok (tokens s) (current_token s')"
    using match_prev_ok [OF m3] t1 t2 by simp
  moreover have "next_ok (tokens s) (current_token s)"
    using m1 by (rule match_next_ok) simp
  ultimately show ?thesis by (simp add: block_post_def)
qed

lemma conditional_exact:
  assumes "loop_spec n" "parse_conditional n s = Some (Inr u, s')"
  shows "exact s s' \<and> prev_ok (tokens s) (current_token s')"
proof -
  from assms(2) obtain t1 s1 v s2 t3 s3 u4 s4 where
    m1: "match KEYWORD s = (Inr t1, s1)" and e: "parse_expression s1 = (Inr v, s2)"
    and m3: "match KEYWORD s2 = (Inr t3, s3)"
    and b: "parse_compound_statement n s3 = Some (Inr u4, s4)"
    and r: "s' = s4 \<or> (\<exists>t5 s5. match KEYWORD s4 = (Inr t5, s5)
              \<and> parse_compound_statement n s5 = Some (Inr u, s'))"
    unfolding parse_conditional.simps
    by (elim seq_fuel_Inr) (auto simp: return_Inr elim!: seq_fuel_Inr split: if_splits)
  have ts: "tokens s1 = tokens s" "tokens s3 = tokens s1"
    using match_tokens [OF m1] match_tokens [OF m3] expr_tokens [OF e] by simp_all
  have b4: "block_post s3 s4" using assms(1) b by (rule compound_block)
  have "exact s s1" using m1 by (simp add: match_silent silent_exact)
  moreover have "exact s1 s3"
    by (rule silent_exact, rule expr_then_match_silent [OF e m3]) simp_all
  moreover have "exact s3 s4" using b4 by (simp add: block_post_def)
  ultimately have ex: "exact s s4" by (blast intro: exact_trans)
  have t4: "tokens s4 = tokens s" using ex by (simp add: exact_def)
  from r show ?thesis
  proof
    assume "s' = s4"
    with ex b4 ts show ?thesis by (simp add: block_post_def)
  next
    assume "\<exists>t5 s5. match KEYWORD s4 = (Inr t5, s5)
              \<and> parse_compound_statement n s5 = Some (Inr u, s')"
    then obtain t5 s5 where m5: "match KEYWORD s4 = (Inr t5, s5)"
      and b5: "parse_compound_statement n s5 = Some (Inr u, s')" by blast
    have b6: "block_post s5 s'" using assms(1) b5 by (rule compound_block)
    have "exact s4 s5" using m5 by (simp add: match_silent silent_exact)
    moreover have "exact s5 s'" using b6 by (simp add: block_post_def)
    ultimately have "exact s s'" using ex by (blast intro: exact_trans)
    moreover have "tokens s5 = tokens s" using match_tokens [OF m5] t4 by simp
    ultimately show ?thesis using b6 by (simp add: block_post_def)
  qed
qed


lemma fixed_loop_exact:
  assumes "loop_spec n" "parse_fixed_loop n s = Some (Inr u, s')"
    "tokens s ! current_token s = (KEYWORD, StrV ''for'')"
  shows "exact s s' \<and> prev_ok (tokens s) (current_token s')"
proof -
  from assms(2) obtain t1 s1 t2 s2 t3 s3 v4 s4 t5 s5 v6 s6 where
    m1: "match KEYWORD s = (Inr t1, s1)" and m2: "match IDENTIFIER s1 = (Inr t2, s2)"
    and m3: "match ASSIGN s2 = (Inr t3, s3)" and e4: "parse_expression s3 = (Inr v4, s4)"
    and m5: "match KEYWORD s4 = (Inr t5, s5)" and e6: "parse_expression s5 = (Inr v6, s6)"
    and b: "parse_compound_statement n s6 = Some (Inr u, s')"
    unfolding parse_fixed_loop.simps
    by (elim seq_fuel_Inr) (auto simp: return_Inr)
  have b7: "block_post s6 s'" using assms(1) b by (rule compound_block)
  note a = match_Inr [OF m1]
  have "silent s s1" using m1 by (simp add: match_silent)
  moreover have "silent s1 s2"
    using m2 a assms(3) by (intro match_identifier_silent) simp_all
  moreover have "silent s2 s3" using m3 by (simp add: match_silent)
  moreover have "silent s3 s5" by (rule expr_then_match_silent [OF e4 m5]) simp_all
  moreover have "silent s5 s6"
    using e6 b7 expr_tokens [OF e6] by (intro expr_silent) (simp_all add: block_post_def)
  ultimately have "silent s s6" by (blast intro: silent_trans)
  then have ex: "exact s s6" by (rule silent_exact)
  moreover have "exact s6 s'" using b7 by (simp add: block_post_def)
  ultimately have "exact s s'" by (rule exact_trans)
  moreover have "tokens s6 = tokens s" using ex by (simp add: exact_def)
  ultimately show ?thesis using b7 by (simp add: block_post_def)
qed

lemma while_loop_pending:
  assumes "loop_spec n" "parse_while_loop n s = Some (Inr u, s')"
  shows "pending s s' \<and> prev_ok (tokens s) (current_token s')"
proof -
  from assms(2) obtain t1 s1 u2 s2 t3 s3 v where
    m1: "match KEYWORD s = (Inr t1, s1)"
    and b: "parse_compound_statement n s1 = Some (Inr u2, s2)"
    and m3: "match KEYWORD s2 = (Inr t3, s3)" and e: "parse_expression s3 = (Inr v, s')"
    unfolding parse_while_loop.simps
    by (elim seq_fuel_Inr) (auto simp: return_Inr)
  have b2: "block_post s1 s2" using assms(1) b by (rule compound_block)
  have "exact s s1" using m1 by (simp add: match_silent silent_exact)
  moreover have "exact s1 s2" using b2 by (simp add: block_post_def)
  moreover have "exact s2 s3" using m3 by (simp add: match_silent silent_exact)
  ultimately have ex: "exact s s3" by (blast intro: exact_trans)
  then have "pending s s'" using expr_pending [OF e] by (rule exact_then_pending)
  moreover have "tokens s3 = tokens s" using ex by (simp add: exact_def)
  ultimately show ?thesis using expr_prev_ok [OF e] by simp
qed

lemma statement_step:
  assumes "loop_spec n"
  shows "stmt_spec (Suc n)"
  unfolding stmt_spec_def
proof (intro allI impI)
  fix s s' u
  assume ps: "parse_statement (Suc n) s = Some (Inr u, s')"
  let ?c = "current_token s" and ?ts = "tokens s"
  let ?good = "exact s s' \<and> prev_ok ?ts (current_token s')"
  from ps have c: "?c < length ?ts"
    unfolding parse_statement.simps by (auto simp: raise_def split: if_splits)
  from ps c consider
      (c_assign) "fst (?ts ! ?c) = IDENTIFIER" "parse_assignment s = (Inr u, s')"
    | (c_if) "fst (?ts ! ?c) = KEYWORD" "parse_conditional n s = Some (Inr u, s')"
    | (c_for) "fst (?ts ! ?c) = KEYWORD" "snd (?ts ! ?c) = StrV ''for''"
        "parse_fixed_loop n s = Some (Inr u, s')"
    | (c_do) "fst (?ts ! ?c) = KEYWORD" "parse_while_loop n s = Some (Inr u, s')"
    | (c_input) "fst (?ts ! ?c) = KEYWORD" "parse_input s = (Inr u, s')"
    | (c_output) "fst (?ts ! ?c) = KEYWORD" "parse_output s = (Inr u, s')"
    | (c_skip) "fst (?ts ! ?c) = KEYWORD" "s' = s"
    | (c_block) "fst (?ts ! ?c) = DELIMITER" "parse_compound_statement n s = Some (Inr u, s')"
    unfolding parse_statement.simps
    by (auto simp: raise_def return_Inr Let_def split: if_splits)
  then have "starts s \<and> (prev_ok ?ts ?c \<longrightarrow> pending s s' \<and> prev_ok ?ts (current_token s'))"
  proof cases
    case c_assign
    then show ?thesis
      using c parse_assignment_exact [of s u s'] by (auto simp: starts_def exact_pending)
  next
    case c_if
    then show ?thesis
      using c conditional_exact [OF assms, of s u s'] by (auto simp: starts_def exact_pending)
  next
    case c_for
    then have "?ts ! ?c = (KEYWORD, StrV ''for'')" by (simp add: prod_eq_iff)
    with c_for show ?thesis
      using c fixed_loop_exact [OF assms, of s u s'] by (auto simp: starts_def exact_pending)
  next
    case c_do
    then show ?thesis
      using c while_loop_pending [OF assms, of s u s'] by (auto simp: starts_def)
  next
    case c_input
    then show ?thesis
      using c parse_input_exact [of s u s'] by (auto simp: starts_def exact_pending)
  next
    case c_output
    then show ?thesis
      using c parse_output_exact [of s u s'] by (auto simp: starts_def exact_pending)
  next
    case c_skip
    then show ?thesis
      using c by (auto simp: starts_def exact_pending exact_refl)
  next
    case c_block
    then show ?thesis
      using c compound_block [OF assms, of s u s']
      by (auto simp: starts_def block_post_def exact_pending)
  qed
  then show "stmt_post s s'" by (simp add: stmt_post_def)
qed

lemma loop_post_refl: "loop_post s s"
  by (simp add: loop_post_def exact_pending exact_refl)

lemma loop_post_step:
  assumes "stmt_post s s1" "loop_post s1 s'"
  shows "loop_post s s'"
proof -
  have "pending s s' \<and> prev_ok (tokens s) (current_token s')"
    if p: "prev_ok (tokens s) (current_token s)"
  proof -
    from assms(1) p have p1: "pending s s1" "prev_ok (tokens s) (current_token s1)"
      by (simp_all add: stmt_post_def)
    then have t: "tokens s1 = tokens s" by (simp add: pending_def)
    with assms(2) p1 have p2: "pending s1 s'" "prev_ok (tokens s) (current_token s')"
      by (simp_all add: loop_post_def)
    have "next_ok (tokens s) (current_token s1)" if "next_ok (tokens s) (current_token s')"
      using assms(2) that t starts_next_ok [of s1] by (auto simp: loop_post_def)
    with p1(1) p2(1) have "pending s s'" by (rule pending_trans)
    with p2(2) show ?thesis by simp
  qed
  with assms(1) show ?thesis by (simp add: loop_post_def stmt_post_def)
qed

lemma loop_step:
  assumes "stmt_spec n" "loop_spec n"
  shows "loop_spec (Suc n)"
  unfolding loop_spec_def
proof (intro allI impI)
  fix s s' u
  assume l: "compound_loop (Suc n) s = Some (Inr u, s')"
  then consider "s' = s"
    | u1 s1 where "parse_statement n s = Some (Inr u1, s1)" "compound_loop n s1 = Some (Inr u, s')"
    unfolding compound_loop.simps
    by (auto simp: return_Inr elim!: seq_fuel_Inr split: if_splits)
  then show "loop_post s s'"
  proof cases
    case 1
    then show ?thesis by (simp add: loop_post_refl)
  next
    case 2
    with assms have "stmt_post s s1" "loop_post s1 s'"
      by (auto simp: stmt_spec_def loop_spec_def)
    then show ?thesis by (rule loop_post_step)
  qed
qed

lemma statement_and_loop: "stmt_spec n \<and> loop_spec n"
proof (induction n)
  case 0
  show ?case
    by (simp add: stmt_spec_def loop_spec_def parse_statement.simps compound_loop.simps)
next
  case (Suc n)
  then show ?case by (simp add: statement_step loop_step)
qed

lemma program_loop_post: "program_loop n s = Some (Inr u, s') \<Longrightarrow> loop_post s s'"
proof (induction n arbitrary: s u)
  case 0
  then show ?case by (simp add: program_loop.simps)
next
  case (Suc n)
  let ?c = "current_token s" and ?ts = "tokens s"
  from Suc.prems consider "s' = s"
    | (decl) u1 s1 where "?c < length ?ts" "fst (?ts ! ?c) = KEYWORD"
        "snd (?ts ! ?c) = StrV ''let''"
        "parse_declaration s = (Inr u1, s1)" "program_loop n s1 = Some (Inr u, s')"
    | (stmt) u1 s1 where "parse_statement n s = Some (Inr u1, s1)"
        "program_loop n s1 = Some (Inr u, s')"
    unfolding program_loop.simps
    by (auto simp: return_Inr elim!: seq_fuel_Inr split: if_splits)
  then show ?case
  proof cases
    case 1
    then show ?thesis by (simp add: loop_post_refl)
  next
    case decl
    have l: "?ts ! ?c = (KEYWORD, StrV ''let'')" using decl(2,3) by (simp add: prod_eq_iff)
    have "stmt_post s s1"
      using decl(1,2) parse_declaration_exact [OF decl(4) l]
      by (simp add: stmt_post_def starts_def exact_pending)
    moreover have "loop_post s1 s'" using decl(5) by (rule Suc.IH)
    ultimately show ?thesis by (rule loop_post_step)
  next
    case stmt
    have "stmt_post s s1"
      using stmt(1) statement_and_loop [of n] by (auto simp: stmt_spec_def)
    moreover have "loop_post s1 s'" using stmt(2) by (rule Suc.IH)
    ultimately show ?thesis by (rule loop_post_step)
  qed
qed

lemma parse_program_exact:
  assumes "parse_program n s = Some (Inr u, s')"
  shows "exact s s'" "0 < current_token s'" "current_token s' \<le> length (tokens s)"
    "fst (tokens s ! (current_token s' - 1)) = DELIMITER"
proof -
  from assms obtain t1 s1 u2 s2 t3 where
    m1: "match DELIMITER s = (Inr t1, s1)" and l: "program_loop n s1 = Some (Inr u2, s2)"
    and m3: "match DELIMITER s2 = (Inr t3, s')"
    unfolding parse_program_def
    by (elim seq_fuel_Inr) (auto simp: return_Inr)
  have t1: "tokens s1 = tokens s" using m1 by (rule match_tokens)
  have p1: "prev_ok (tokens s1) (current_token s1)"
    using match_prev_ok [OF m1] t1 by simp
  from l have "loop_post s1 s2" by (rule program_loop_post)
  with p1 have pe: "pending s1 s2" by (simp add: loop_post_def)
  then have t2: "tokens s2 = tokens s1" by (simp add: pending_def)
  have "next_ok (tokens s1) (current_token s2)"
    using match_next_ok [OF m3] t2 by simp
  with pe have "exact s1 s2" by (rule pending_exact)
  moreover have "exact s s1" using m1 by (simp add: match_silent silent_exact)
  moreover have "exact s2 s'" using m3 by (simp add: match_silent silent_exact)
  ultimately show "exact s s'" by (blast intro: exact_trans)
  show "0 < current_token s'" "current_token s' \<le> length (tokens s)"
    "fst (tokens s ! (current_token s' - 1)) = DELIMITER"
    using match_Inr [OF m3] t1 t2 by simp_all
qed

text \<open>
  Claim C9: after a successful parse the keys of the symbol table are exactly the names of
  the identifier tokens that the parser consumed immediately before an \<open>ASSIGN\<close> token,
  other than the loop variable behind the keyword \<^verbatim>\<open>for\<close>: the left sides of the
  declarations and assignments. An identifier that only occurs in an expression, in an
  \<^verbatim>\<open>input\<close> statement or in a \<^verbatim>\<open>for\<close> header is no key. The cursor ends within the stream.
\<close>

theorem symbol_table_keys:
  assumes "parse n (SyntaxAnalyzer_init toks) = Some (Inr (Success table), s')"
  shows "fst ` set table =
      {snd (toks ! i) | i. i + 1 < current_token s' \<and> fst (toks ! i) = IDENTIFIER
         \<and> fst (toks ! (i + 1)) = ASSIGN \<and> \<not> (0 < i \<and> toks ! (i - 1) = (KEYWORD, StrV ''for''))}
    \<and> current_token s' \<le> length toks"
proof -
  let ?s = "SyntaxAnalyzer_init toks"
  from assms obtain u where p: "parse_program n ?s = Some (Inr u, s')"
    and t: "table = symbol_table s'"
    by (auto simp: parse_def return_def raise_def
        split: option.splits prod.splits sum.splits exn.splits)
  note e = parse_program_exact [OF p]
  have init: "tokens ?s = toks" "current_token ?s = 0" "keys ?s = {}"
    by (simp_all add: SyntaxAnalyzer_init_def keys_def)
  have "fst ` set table = targets toks 0 (current_token s')"
    using e(1) t init by (simp add: exact_def keys_def)
  also have "\<dots> = {snd (toks ! i) | i. i + 1 < current_token s' \<and> fst (toks ! i) = IDENTIFIER
         \<and> fst (toks ! (i + 1)) = ASSIGN \<and> \<not> (0 < i \<and> toks ! (i - 1) = (KEYWORD, StrV ''for''))}"
  proof -
    have "(i < current_token s' \<and> lhs_at toks i) \<longleftrightarrow>
        (i + 1 < current_token s' \<and> fst (toks ! i) = IDENTIFIER
         \<and> fst (toks ! (i + 1)) = ASSIGN \<and> \<not> (0 < i \<and> toks ! (i - 1) = (KEYWORD, StrV ''for'')))"
      for i
    proof (cases "i + 1 = current_token s'")
      case True
      then have "i = current_token s' - 1" by simp
      with e(4) init True show ?thesis by (auto simp: lhs_at_def)
    next
      case False
      with e(3) init show ?thesis by (auto simp: lhs_at_def)
    qed
    then show ?thesis by (simp add: targets_def)
  qed
  finally show ?thesis using e(3) init by simp
qed

theorem symbol_table_keys_witness:
  "fst (tokenize ''{ let x = 1; y = x; input z; for i = 1 do 2 { } }'') =
     [(DELIMITER, StrV ''{''),
      (KEYWORD, StrV ''let''), (IDENTIFIER, StrV ''x''), (ASSIGN, StrV ''=''), (NUMBER, IntV 1),
      (DELIMITER, StrV '';''),
      (IDENTIFIER, StrV ''y''), (ASSIGN, StrV ''=''), (IDENTIFIER, StrV ''x''),
      (DELIMITER, StrV '';''),
      (KEYWORD, StrV ''input''), (IDENTIFIER, StrV ''z''), (DELIMITER, StrV '';''),
      (KEYWORD, StrV ''for''), (IDENTIFIER, StrV ''i''), (ASSIGN, StrV ''=''), (NUMBER, IntV 1),
      (KEYWORD, StrV ''do''), (NUMBER, IntV 2), (DELIMITER, StrV ''{''), (DELIMITER, StrV ''}''),
      (DELIMITER, StrV ''}'')]
   \<and> (\<exists>table s'.
         parse 10 (SyntaxAnalyzer_init
            (fst (tokenize ''{ let x = 1; y = x; input z; for i = 1 do 2 { } }'')))
           = Some (Inr (Success table), s')
         \<and> current_token s' = 22
         \<and> fst ` set table = {StrV ''x'', StrV ''y''}
         \<and> {snd (fst (tokenize ''{ let x = 1; y = x; input z; for i = 1 do 2 { } }'') ! i) | i.
              i + 1 < 22
              \<and> fst (fst (tokenize ''{ let x = 1; y = x; input z; for i = 1 do 2 { } }'') ! i)
                  = IDENTIFIER
              \<and> fst (fst (tokenize ''{ let x = 1; y = x; input z; for i = 1 do 2 { } }'') ! (i + 1))
                  = ASSIGN
              \<and> \<not> (0 < i \<and>
                   fst (tokenize ''{ let x = 1; y = x; input z; for i = 1 do 2 { } }'') ! (i - 1)
                     = (KEYWORD, StrV ''for''))}
            = {StrV ''x'', StrV ''y''})"
proof -
  let ?toks = "fst (tokenize ''{ let x = 1; y = x; input z; for i = 1 do 2 { } }'')"
  let ?table = "[(StrV ''x'', \<lparr>entry_type = ''variable'', entry_value = Some (Operand (IntV 1)),
        declared = True\<rparr>),
      (StrV ''y'', \<lparr>entry_type = ''variable'', entry_value = Some (Operand (StrV ''x'')),
        declared = False\<rparr>)]"
  let ?s' = "\<lparr>tokens = ?toks, current_token = 22, symbol_table = ?table\<rparr>"
  have t: "?toks =
     [(DELIMITER, StrV ''{''),
      (KEYWORD, StrV ''let''), (IDENTIFIER, StrV ''x''), (ASSIGN, StrV ''=''), (NUMBER, IntV 1),
      (DELIMITER, StrV '';''),
      (IDENTIFIER, StrV ''y''), (ASSIGN, StrV ''=''), (IDENTIFIER, StrV ''x''),
      (DELIMITER, StrV '';''),
      (KEYWORD, StrV ''input''), (IDENTIFIER, StrV ''z''), (DELIMITER, StrV '';''),
      (KEYWORD, StrV ''for''), (IDENTIFIER, StrV ''i''), (ASSIGN, StrV ''=''), (NUMBER, IntV 1),
      (KEYWORD, StrV ''do''), (NUMBER, IntV 2), (DELIMITER, StrV ''{''), (DELIMITER, StrV ''}''),
      (DELIMITER, StrV ''}'')]"
    by code_simp
  have p: "parse 10 (SyntaxAnalyzer_init ?toks) = Some (Inr (Success ?table), ?s')"
    unfolding t by code_simp
  from symbol_table_keys [OF p] p t show ?thesis by simp
qed

end
